theory Spec2Isabelle
  imports Complex_Main "HOL-Library.Sublist"
begin

section \<open>Values and strings\<close>

text \<open>
  JSON-serialisable JavaScript values, as they are stored in a job file and returned by
  \<^verbatim>\<open>JSON.parse\<close>. Numbers are the integers the pipeline writes (progress, counts);
  a \<^verbatim>\<open>Date\<close> is stored as its ISO string, modelled by the instant it denotes.
\<close>

datatype jsval =
    JNull
  | JBool bool
  | JNum int
  | JStr string
  | JDate nat
  | JArr "jsval list"
  | JObj "(string \<times> jsval) list"

text \<open>
  JavaScript strings are modelled as \<^typ>\<open>string\<close>, one \<^typ>\<open>char\<close> per code unit
  (code units below 256). \<^verbatim>\<open>\s\<close> and \<^verbatim>\<open>trim()\<close> agree on the white space
  of that range: tab, line feed, vertical tab, form feed, carriage return, space and
  no-break space.
\<close>

definition is_space :: "char \<Rightarrow> bool" where
  "is_space c \<longleftrightarrow> c \<in> {CHR 0x09, CHR 0x0A, CHR 0x0B, CHR 0x0C, CHR 0x0D, CHR 0x20, CHR 0xA0}"

definition trim :: "string \<Rightarrow> string" where
  "trim s = rev (dropWhile is_space (rev (dropWhile is_space s)))"

text \<open>\<^verbatim>\<open>String.prototype.indexOf(ch)\<close>: the first index of the character, or -1.\<close>

fun indexOf :: "string \<Rightarrow> char \<Rightarrow> int" where
  "indexOf [] c = - 1"
| "indexOf (x # xs) c =
     (if x = c then 0
      else (let i = indexOf xs c in if i = - 1 then - 1 else i + 1))"

text \<open>\<^verbatim>\<open>String.prototype.lastIndexOf(ch)\<close>: the last index of the character, or -1.\<close>

definition lastIndexOf :: "string \<Rightarrow> char \<Rightarrow> int" where
  "lastIndexOf s c =
     (let i = indexOf (rev s) c in if i = - 1 then - 1 else int (length s) - 1 - i)"

text \<open>
  \<^verbatim>\<open>String.prototype.substring(start, end)\<close>: both indices are clamped to
  \<open>[0, length]\<close> and swapped when \<open>start > end\<close>.
\<close>

definition substring :: "string \<Rightarrow> int \<Rightarrow> int \<Rightarrow> string" where
  "substring s a b =
     (let n = int (length s);
          a' = max 0 (min a n);
          b' = max 0 (min b n);
          lo = min a' b';
          hi = max a' b'
      in take (nat (hi - lo)) (drop (nat lo) s))"

section \<open>The fenced-block pattern\<close>

text \<open>
  \<^verbatim>\<open>responseText.match(/```(?:json)?\s*([\s\S]*?)\s*```/)\<close>.
  The pattern is run as a backtracking matcher does: every sub-pattern yields its
  alternatives in the order the engine tries them, and the first complete match wins.
  Each function returns the text that remains after the sub-pattern.
\<close>

definition fence :: string where
  "fence = [CHR 0x60, CHR 0x60, CHR 0x60]"

text \<open>\<^verbatim>\<open>(?:json)?\<close>, greedy: with the tag first, then without.\<close>

definition opt_json :: "string \<Rightarrow> string list" where
  "opt_json s = (if prefix ''json'' s then [drop 4 s] else []) @ [s]"

text \<open>\<^verbatim>\<open>\s*\<close>, greedy: the longest run of white space first, then shorter ones.\<close>

fun spaces_greedy :: "string \<Rightarrow> string list" where
  "spaces_greedy [] = [[]]"
| "spaces_greedy (c # cs) = (if is_space c then spaces_greedy cs @ [c # cs] else [c # cs])"

text \<open>
  \<^verbatim>\<open>([\s\S]*?)\<close>, lazy: the shortest capture first. Each alternative is the
  captured text with the remaining text.
\<close>

fun any_lazy :: "string \<Rightarrow> (string \<times> string) list" where
  "any_lazy [] = [([], [])]"
| "any_lazy (c # cs) = ([], c # cs) # map (\<lambda>(cap, r). (c # cap, r)) (any_lazy cs)"

text \<open>\<^verbatim>\<open>([\s\S]*?)\s*```\<close> from the head of \<open>s\<close>: the captures of all its matches,
  in the engine's order.\<close>

definition lazy_until_fence :: "string \<Rightarrow> string list" where
  "lazy_until_fence s =
     concat (map (\<lambda>(cap, r3).
        concat (map (\<lambda>r4. if prefix fence r4 then [cap] else []) (spaces_greedy r3)))
       (any_lazy s))"

text \<open>All matches of the whole pattern that start at the head of \<open>s\<close>, as their capture
  group 1, in the engine's order.\<close>

definition match_here :: "string \<Rightarrow> string list" where
  "match_here s =
     (if prefix fence s then
        concat (map (\<lambda>r1. concat (map lazy_until_fence (spaces_greedy r1)))
          (opt_json (drop 3 s)))
      else [])"

text \<open>The leftmost match: \<open>None\<close> is JavaScript's \<^verbatim>\<open>null\<close>, \<open>Some cap\<close> a match
  array whose element 1 is \<open>cap\<close>.\<close>

fun regex_match :: "string \<Rightarrow> string option" where
  "regex_match [] = None"
| "regex_match (c # cs) =
     (case match_here (c # cs) of
        cap # _ \<Rightarrow> Some cap
      | [] \<Rightarrow> regex_match cs)"

section \<open>Structured-response extraction\<close>

text \<open>A record written by \<^verbatim>\<open>logger.warn\<close> or \<^verbatim>\<open>logger.error\<close>.\<close>

record log_record =
  level :: string
  message :: string
  details :: "(string \<times> string) list"

text \<open>
  The inner \<^verbatim>\<open>try\<close> block of \<^verbatim>\<open>parseAIResponse\<close>. \<open>JSON_parse\<close> is
  \<^verbatim>\<open>JSON.parse\<close>: \<open>Inr\<close> the parsed value, \<open>Inl\<close> the message of the
  \<^verbatim>\<open>SyntaxError\<close> it throws. The result is \<open>Inl\<close> the message of whatever the
  block throws.
\<close>

definition repair :: "(string \<Rightarrow> string + 'v) \<Rightarrow> string \<Rightarrow> string + 'v" where
  "repair JSON_parse responseText =
     (let jsonMatch = regex_match responseText in
      if jsonMatch \<noteq> None \<and> jsonMatch \<noteq> Some [] then
        JSON_parse (trim (the jsonMatch))
      else
        (let firstBrace = indexOf responseText CHR ''{'';
             lastBrace = lastIndexOf responseText CHR ''}''
         in if firstBrace \<noteq> - 1 \<and> lastBrace \<noteq> - 1 \<and> lastBrace > firstBrace then
              JSON_parse (substring responseText firstBrace (lastBrace + 1))
            else
              Inl (''Could not extract JSON from AI response: '' @ substring responseText 0 200)))"

text \<open>
  \<^verbatim>\<open>parseAIResponse(responseText)\<close>, the same in \<^verbatim>\<open>PlanningEngine\<close>, the four
  platform agents, \<^verbatim>\<open>CodeModernizer\<close> and \<^verbatim>\<open>AICTOMonitor\<close>. It returns the records it
  logs and \<open>Inr\<close> the value it returns or \<open>Inl\<close> the message of the \<^verbatim>\<open>Error\<close> it
  throws.
\<close>

definition parseAIResponse ::
  "(string \<Rightarrow> string + 'v) \<Rightarrow> string \<Rightarrow> log_record list \<times> (string + 'v)" where
  "parseAIResponse JSON_parse responseText =
     (case JSON_parse responseText of
        Inr v \<Rightarrow> ([], Inr v)
      | Inl initialError \<Rightarrow>
          (let warning = \<lparr>level = ''warn'',
                 message = ''Could not parse AI response directly, trying to trim...'',
                 details = [(''error'', initialError)]\<rparr>
           in case repair JSON_parse responseText of
                Inr v \<Rightarrow> ([warning], Inr v)
              | Inl repairError \<Rightarrow>
                  ([warning,
                    \<lparr>level = ''error'',
                     message = ''Could not fix AI response'',
                     details = [(''originalError'', initialError),
                               (''repairError'', repairError),
                               (''responseSample'', substring responseText 0 500)]\<rparr>],
                   Inl (''Could not process AI response: '' @ repairError))))"

section \<open>The job store\<close>

text \<open>
  A job is the JavaScript object kept in \<^verbatim>\<open>jobs/<jobId>.json\<close>: a finite map from
  field names to values. A field holding \<^verbatim>\<open>undefined\<close> is absent from the map, as
  it is from the file. The world is the jobs directory, the sequence of files written
  so far (each \<^verbatim>\<open>fs.writeJson\<close>, in order), and the system clock read by
  \<^verbatim>\<open>new Date()\<close>. Reads and writes of the directory do not fail.
\<close>

type_synonym job = "string \<rightharpoonup> jsval"

record world =
  files :: "string \<rightharpoonup> job"
  written :: "(string \<times> job) list"
  now :: nat

definition writeJson :: "world \<Rightarrow> string \<Rightarrow> job \<Rightarrow> world" where
  "writeJson w jobId job = w\<lparr>files := (files w)(jobId \<mapsto> job), written := written w @ [(jobId, job)]\<rparr>"

text \<open>\<^verbatim>\<open>JobManager.createJob(jobId, jobData)\<close>: the object literal
  \<^verbatim>\<open>{ id: jobId, ...jobData, createdAt: ..., updatedAt: ... }\<close> is written to the job's
  file, whatever the file held before.\<close>

definition createJob :: "world \<Rightarrow> string \<Rightarrow> job \<Rightarrow> world \<times> job" where
  "createJob w jobId jobData =
     (let job = ([''id'' \<mapsto> JStr jobId] ++ jobData)
                  (''createdAt'' \<mapsto> JDate (now w), ''updatedAt'' \<mapsto> JDate (now w))
      in (writeJson w jobId job, job))"

text \<open>\<^verbatim>\<open>JobManager.getJob(jobId)\<close>: \<open>None\<close> is \<^verbatim>\<open>null\<close>.\<close>

definition getJob :: "world \<Rightarrow> string \<Rightarrow> job option" where
  "getJob w jobId = files w jobId"

text \<open>The object literal \<^verbatim>\<open>{ ...job, ...updates, updatedAt: new Date().toISOString() }\<close>
  of \<^verbatim>\<open>updateJob\<close>.\<close>

definition merge_updates :: "job \<Rightarrow> job \<Rightarrow> nat \<Rightarrow> job" where
  "merge_updates job updates t = (job ++ updates)(''updatedAt'' \<mapsto> JDate t)"

text \<open>\<^verbatim>\<open>JobManager.updateJob(jobId, updates)\<close>, run without anything else happening
  between its read and its write. \<open>Inl\<close> is the message of the error it throws.\<close>

definition updateJob :: "world \<Rightarrow> string \<Rightarrow> job \<Rightarrow> string + world \<times> job" where
  "updateJob w jobId updates =
     (case getJob w jobId of
        None \<Rightarrow> Inl (''Job '' @ jobId @ '' not found'')
      | Some job \<Rightarrow>
          (let updatedJob = merge_updates job updates (now w)
           in Inr (writeJson w jobId updatedJob, updatedJob)))"

subsection \<open>Overlapping updates\<close>

text \<open>
  \<^verbatim>\<open>updateJob\<close> suspends at \<^verbatim>\<open>await this.getJob(jobId)\<close> and at
  \<^verbatim>\<open>await fs.writeJson(...)\<close>, so another call can run between its read and its
  write. A call in progress is a record of its arguments and of how far it has got;
  \<open>step_call\<close> runs it to its next suspension point.
\<close>

datatype phase = Reading | Writing job | Returned | Threw string

record call =
  target :: string
  updates :: job
  phase :: phase

definition new_call :: "string \<Rightarrow> job \<Rightarrow> call" where
  "new_call jobId upd = \<lparr>target = jobId, updates = upd, phase = Reading\<rparr>"

definition step_call :: "world \<Rightarrow> call \<Rightarrow> world \<times> call" where
  "step_call w c =
     (case phase c of
        Reading \<Rightarrow>
          (case getJob w (target c) of
             None \<Rightarrow> (w, c\<lparr>phase := Threw (''Job '' @ target c @ '' not found'')\<rparr>)
           | Some job \<Rightarrow> (w, c\<lparr>phase := Writing (merge_updates job (updates c) (now w))\<rparr>))
      | Writing updatedJob \<Rightarrow> (writeJson w (target c) updatedJob, c\<lparr>phase := Returned\<rparr>)
      | Returned \<Rightarrow> (w, c)
      | Threw e \<Rightarrow> (w, c))"

text \<open>A schedule names, step by step, which of the calls in progress runs next.\<close>

fun run_schedule :: "world \<Rightarrow> call list \<Rightarrow> nat list \<Rightarrow> world \<times> call list" where
  "run_schedule w cs [] = (w, cs)"
| "run_schedule w cs (i # sched) =
     (if i < length cs then
        (let (w', c') = step_call w (cs ! i) in run_schedule w' (cs[i := c']) sched)
      else run_schedule w cs sched)"

section \<open>The status routes\<close>

text \<open>\<^verbatim>\<open>job.progress || 0\<close>; the progress field, when present, is a number.\<close>

definition progress_of :: "job \<Rightarrow> int" where
  "progress_of job = (case job ''progress'' of Some (JNum p) \<Rightarrow> p | _ \<Rightarrow> 0)"

definition baseEstimates :: "string \<rightharpoonup> int" where
  "baseEstimates = [''generate'' \<mapsto> 8 * 60, ''analyze'' \<mapsto> 5 * 60, ''modernize'' \<mapsto> 10 * 60]"

text \<open>\<^verbatim>\<open>Math.ceil(a / 100)\<close> on integers.\<close>

definition ceil_div100 :: "int \<Rightarrow> int" where
  "ceil_div100 a = - ((- a) div 100)"

definition calculateEstimatedTime :: "job \<Rightarrow> int" where
  "calculateEstimatedTime job =
     (if job ''status'' = Some (JStr ''completed'') \<or> job ''status'' = Some (JStr ''failed'')
         \<or> job ''status'' = Some (JStr ''cancelled'')
      then 0
      else
        (let baseTime =
               (case job ''type'' of
                  Some (JStr t) \<Rightarrow> (case baseEstimates t of Some b \<Rightarrow> b | None \<Rightarrow> 5 * 60)
                | _ \<Rightarrow> 5 * 60);
             progress = progress_of job;
             remainingProgress = 100 - progress
         in ceil_div100 (baseTime * remainingProgress)))"

text \<open>An HTTP response: the status code and the JSON body (fields holding
  \<^verbatim>\<open>undefined\<close> are absent).\<close>

record response =
  code :: nat
  body :: job

text \<open>\<^verbatim>\<open>router.get('/:jobId')\<close>.\<close>

definition get_status :: "world \<Rightarrow> string \<Rightarrow> response" where
  "get_status w jobId =
     (case getJob w jobId of
        None \<Rightarrow> \<lparr>code = 404, body = [''error'' \<mapsto> JStr ''Job not found'', ''jobId'' \<mapsto> JStr jobId]\<rparr>
      | Some job \<Rightarrow>
          \<lparr>code = 200,
           body = (\<lambda>k.
             if k = ''jobId'' then Some (JStr jobId)
             else if k = ''progress'' then Some (JNum (progress_of job))
             else if k = ''estimatedTimeRemaining'' then Some (JNum (calculateEstimatedTime job))
             else if k \<in> {''status'', ''type'', ''createdAt'', ''completedAt'', ''failedAt'',
                           ''error'', ''result''} then job k
             else None)\<rparr>)"

text \<open>\<^verbatim>\<open>router.delete('/:jobId')\<close>, the cancellation request, run without anything else
  happening between its read and its update.\<close>

definition cancel_job :: "world \<Rightarrow> string \<Rightarrow> world \<times> response" where
  "cancel_job w jobId =
     (case getJob w jobId of
        None \<Rightarrow> (w, \<lparr>code = 404, body = [''error'' \<mapsto> JStr ''Job not found'', ''jobId'' \<mapsto> JStr jobId]\<rparr>)
      | Some job \<Rightarrow>
          if job ''status'' = Some (JStr ''completed'') \<or> job ''status'' = Some (JStr ''failed'') then
            (w, \<lparr>code = 400,
                 body = (\<lambda>k. if k = ''error'' then Some (JStr ''Cannot cancel completed or failed job'')
                              else if k = ''status'' then job ''status'' else None)\<rparr>)
          else
            (case updateJob w jobId [''status'' \<mapsto> JStr ''cancelled'', ''cancelledAt'' \<mapsto> JDate (now w)] of
               Inl e \<Rightarrow> (w, \<lparr>code = 500,
                             body = [''error'' \<mapsto> JStr ''Failed to cancel job'', ''details'' \<mapsto> JStr e]\<rparr>)
             | Inr (w', _) \<Rightarrow>
                 (w', \<lparr>code = 200,
                       body = [''jobId'' \<mapsto> JStr jobId, ''status'' \<mapsto> JStr ''cancelled'',
                               ''message'' \<mapsto> JStr ''Job has been cancelled'']\<rparr>)))"

section \<open>The pipeline runners\<close>

text \<open>
  What happens outside a runner while it waits for a stage: cancellation requests are
  served, and time passes. In this section every update of the runner and every
  request is taken to run to completion before the next begins; what happens when two
  updates overlap is the subject of the section on overlapping updates.
\<close>

datatype event = Cancel string | Tick

fun occur :: "event \<Rightarrow> world \<Rightarrow> world" where
  "occur (Cancel jobId) w = fst (cancel_job w jobId)"
| "occur Tick w = w\<lparr>now := Suc (now w)\<rparr>"

definition serve :: "event list \<Rightarrow> world \<Rightarrow> world" where
  "serve evs w = fold occur evs w"

text \<open>
  The collaborators a runner calls, each given by what its call does in this run:
  \<open>Inr\<close> the value it returns, \<open>Inl\<close> the message of the error it throws.
  \<open>apply_preferences\<close> is the block of \<^verbatim>\<open>generateAppAsync\<close> that rewrites
  \<^verbatim>\<open>planningData.tech_stack.backend\<close> and sets \<^verbatim>\<open>planningData.platforms\<close>; it throws a
  \<^verbatim>\<open>TypeError\<close> when the planning data lacks the objects it touches.
\<close>

record collaborators =
  planningEngine_analyzeDescription :: "string + jsval"
  apply_preferences :: "jsval \<Rightarrow> string + jsval"
  codeGenerator_generateMultiPlatformApp :: "jsval \<Rightarrow> string + jsval"
  packageGeneratedCode :: "jsval \<Rightarrow> string + jsval"
  extractCodeFiles :: "string + jsval list"
  planningEngine_analyzeExistingCode :: "jsval list \<Rightarrow> string + jsval"
  codeModernizer_modernizeCode :: "jsval list \<Rightarrow> string + jsval"
  packageModernizedCode :: "jsval \<Rightarrow> string + jsval"

text \<open>
  One stage of a runner, \<^verbatim>\<open>await jobManager.updateJob(jobId, {...}); x = await work();\<close>:
  the update that opens the stage, then the stage's work, during which the events
  \<open>evs\<close> occur. \<open>Inl\<close> is the message of the error thrown, with the world at that
  point.
\<close>

definition stage ::
  "world \<Rightarrow> string \<Rightarrow> job \<Rightarrow> event list \<Rightarrow> (string + 'a) \<Rightarrow> (string \<times> world) + (world \<times> 'a)" where
  "stage w jobId upd evs work =
     (case updateJob w jobId upd of
        Inl e \<Rightarrow> Inl (e, w)
      | Inr (w', _) \<Rightarrow>
          (let w'' = serve evs w'
           in case work of Inl e \<Rightarrow> Inl (e, w'') | Inr x \<Rightarrow> Inr (w'', x)))"

text \<open>The \<^verbatim>\<open>catch\<close> block of the three runners: the job is marked failed with the
  error's message. When that update throws in its turn the runner's promise rejects;
  the second component is the message it rejects with.\<close>

definition mark_failed :: "string \<Rightarrow> string \<times> world \<Rightarrow> world \<times> string option" where
  "mark_failed jobId failure =
     (case failure of (e, w) \<Rightarrow>
        (case updateJob w jobId
                [''status'' \<mapsto> JStr ''failed'', ''error'' \<mapsto> JStr e, ''failedAt'' \<mapsto> JDate (now w)] of
           Inl e' \<Rightarrow> (w, Some e')
         | Inr (w', _) \<Rightarrow> (w', None)))"

text \<open>The \<^verbatim>\<open>try\<close> block of \<^verbatim>\<open>generateAppAsync\<close>. \<open>ext k\<close> are the events that
  occur while stage \<open>k\<close> is in flight.\<close>

definition generateAppAsync_try ::
  "collaborators \<Rightarrow> (nat \<Rightarrow> event list) \<Rightarrow> string \<Rightarrow> world \<Rightarrow> (string \<times> world) + world" where
  "generateAppAsync_try env ext jobId w =
     (case stage w jobId [''status'' \<mapsto> JStr ''planning''] (ext 0)
             (case planningEngine_analyzeDescription env of
                Inl e \<Rightarrow> Inl e
              | Inr planned \<Rightarrow> apply_preferences env planned) of
        Inl failure \<Rightarrow> Inl failure
      | Inr (w1, planningData) \<Rightarrow>
     (case stage w1 jobId
             [''status'' \<mapsto> JStr ''generating'', ''planningData'' \<mapsto> planningData,
              ''progress'' \<mapsto> JNum 25] (ext 1)
             (codeGenerator_generateMultiPlatformApp env planningData) of
        Inl failure \<Rightarrow> Inl failure
      | Inr (w2, generationResult) \<Rightarrow>
     (case stage w2 jobId [''status'' \<mapsto> JStr ''packaging'', ''progress'' \<mapsto> JNum 80] (ext 2)
             (packageGeneratedCode env generationResult) of
        Inl failure \<Rightarrow> Inl failure
      | Inr (w3, packagedResult) \<Rightarrow>
     (case updateJob w3 jobId
             [''status'' \<mapsto> JStr ''completed'', ''progress'' \<mapsto> JNum 100,
              ''result'' \<mapsto> packagedResult, ''completedAt'' \<mapsto> JDate (now w3)] of
        Inl e \<Rightarrow> Inl (e, w3)
      | Inr (w4, _) \<Rightarrow> Inr w4))))"

text \<open>\<^verbatim>\<open>generateAppAsync(jobId, description, platforms, preferences)\<close>.\<close>

definition generateAppAsync ::
  "collaborators \<Rightarrow> (nat \<Rightarrow> event list) \<Rightarrow> string \<Rightarrow> world \<Rightarrow> world \<times> string option" where
  "generateAppAsync env ext jobId w =
     (case generateAppAsync_try env ext jobId w of
        Inr w' \<Rightarrow> (w', None)
      | Inl failure \<Rightarrow> mark_failed jobId failure)"

text \<open>\<^verbatim>\<open>generateRecommendations\<close> returns a fixed object.\<close>

definition generateRecommendations :: jsval where
  "generateRecommendations =
     JObj [(''summary'', JStr ''Code analysis completed''),
           (''recommendations'',
              JArr [JStr ''Consider updating to latest framework version'',
                    JStr ''Implement proper error handling'',
                    JStr ''Add unit tests for critical functions'']),
           (''modernization_opportunities'',
              JArr [JStr ''Convert to modern UI framework'',
                    JStr ''Implement reactive programming patterns'',
                    JStr ''Add TypeScript for better type safety'']),
           (''estimated_effort'', JStr ''Medium (2-4 weeks)'')]"

text \<open>The \<^verbatim>\<open>try\<close> block of \<^verbatim>\<open>analyzeCodeAsync\<close>.\<close>

definition analyzeCodeAsync_try ::
  "collaborators \<Rightarrow> (nat \<Rightarrow> event list) \<Rightarrow> string \<Rightarrow> world \<Rightarrow> (string \<times> world) + world" where
  "analyzeCodeAsync_try env ext jobId w =
     (case stage w jobId [''status'' \<mapsto> JStr ''extracting'', ''progress'' \<mapsto> JNum 10] (ext 0)
             (extractCodeFiles env) of
        Inl failure \<Rightarrow> Inl failure
      | Inr (w1, extractedFiles) \<Rightarrow>
     (case stage w1 jobId [''status'' \<mapsto> JStr ''analyzing'', ''progress'' \<mapsto> JNum 30] (ext 1)
             (planningEngine_analyzeExistingCode env extractedFiles) of
        Inl failure \<Rightarrow> Inl failure
      | Inr (w2, analysis) \<Rightarrow>
     (case stage w2 jobId
             [''status'' \<mapsto> JStr ''generating_recommendations'', ''progress'' \<mapsto> JNum 70] (ext 2)
             (Inr generateRecommendations :: string + jsval) of
        Inl failure \<Rightarrow> Inl failure
      | Inr (w3, recommendations) \<Rightarrow>
     (case updateJob w3 jobId
             [''status'' \<mapsto> JStr ''completed'', ''progress'' \<mapsto> JNum 100,
              ''result'' \<mapsto> JObj [(''analysis'', analysis), (''recommendations'', recommendations),
                                  (''files_analyzed'', JNum (int (length extractedFiles)))],
              ''completedAt'' \<mapsto> JDate (now w3)] of
        Inl e \<Rightarrow> Inl (e, w3)
      | Inr (w4, _) \<Rightarrow> Inr w4))))"

text \<open>\<^verbatim>\<open>analyzeCodeAsync(jobId, file, instruction, targetPlatform, modernizationType)\<close>.\<close>

definition analyzeCodeAsync ::
  "collaborators \<Rightarrow> (nat \<Rightarrow> event list) \<Rightarrow> string \<Rightarrow> world \<Rightarrow> world \<times> string option" where
  "analyzeCodeAsync env ext jobId w =
     (case analyzeCodeAsync_try env ext jobId w of
        Inr w' \<Rightarrow> (w', None)
      | Inl failure \<Rightarrow> mark_failed jobId failure)"

text \<open>The \<^verbatim>\<open>try\<close> block of \<^verbatim>\<open>modernizeCodeAsync\<close>.\<close>

definition modernizeCodeAsync_try ::
  "collaborators \<Rightarrow> (nat \<Rightarrow> event list) \<Rightarrow> string \<Rightarrow> world \<Rightarrow> (string \<times> world) + world" where
  "modernizeCodeAsync_try env ext jobId w =
     (case stage w jobId [''status'' \<mapsto> JStr ''extracting'', ''progress'' \<mapsto> JNum 10] (ext 0)
             (extractCodeFiles env) of
        Inl failure \<Rightarrow> Inl failure
      | Inr (w1, extractedFiles) \<Rightarrow>
     (case stage w1 jobId [''status'' \<mapsto> JStr ''analyzing'', ''progress'' \<mapsto> JNum 25] (ext 1)
             (planningEngine_analyzeExistingCode env extractedFiles) of
        Inl failure \<Rightarrow> Inl failure
      | Inr (w2, analysis) \<Rightarrow>
     (case stage w2 jobId [''status'' \<mapsto> JStr ''modernizing'', ''progress'' \<mapsto> JNum 50] (ext 2)
             (codeModernizer_modernizeCode env extractedFiles) of
        Inl failure \<Rightarrow> Inl failure
      | Inr (w3, modernizedCode) \<Rightarrow>
     (case stage w3 jobId [''status'' \<mapsto> JStr ''packaging'', ''progress'' \<mapsto> JNum 85] (ext 3)
             (packageModernizedCode env modernizedCode) of
        Inl failure \<Rightarrow> Inl failure
      | Inr (w4, packagedResult) \<Rightarrow>
     (case updateJob w4 jobId
             [''status'' \<mapsto> JStr ''completed'', ''progress'' \<mapsto> JNum 100,
              ''result'' \<mapsto> packagedResult, ''completedAt'' \<mapsto> JDate (now w4)] of
        Inl e \<Rightarrow> Inl (e, w4)
      | Inr (w5, _) \<Rightarrow> Inr w5)))))"

text \<open>\<^verbatim>\<open>modernizeCodeAsync(jobId, file, fromFramework, toFramework, additionalInstructions)\<close>.\<close>

definition modernizeCodeAsync ::
  "collaborators \<Rightarrow> (nat \<Rightarrow> event list) \<Rightarrow> string \<Rightarrow> world \<Rightarrow> world \<times> string option" where
  "modernizeCodeAsync env ext jobId w =
     (case modernizeCodeAsync_try env ext jobId w of
        Inr w' \<Rightarrow> (w', None)
      | Inl failure \<Rightarrow> mark_failed jobId failure)"

section \<open>Multi-platform code generation\<close>

text \<open>What an agent's \<^verbatim>\<open>generateCode\<close> returns: the paths it wrote and the structure
  the model reported.\<close>

record code =
  code_files :: "string list"
  code_structure :: jsval













text \<open>
  \<^verbatim>\<open>await Promise.all(generationPromises)\<close> rejects with the error of the promise that
  rejects first. \<open>settled_at i\<close> is the time at which promise \<open>i\<close> settles.
\<close>

definition first_rejection :: "(nat \<Rightarrow> nat) \<Rightarrow> (string + 'a) list \<Rightarrow> string option" where
  "first_rejection settled_at outcomes =
     (case filter (\<lambda>i. isl (outcomes ! i)) [0..<length outcomes] of
        [] \<Rightarrow> None
      | i # rest \<Rightarrow>
          (case outcomes ! arg_min_list settled_at (i # rest) of
             Inl e \<Rightarrow> Some e
           | Inr _ \<Rightarrow> None))"



section \<open>Observations on a run\<close>

text \<open>The records written to the file of job \<open>jobId\<close>, in the order of the writes.\<close>

definition job_writes :: "string \<Rightarrow> world \<Rightarrow> job list" where
  "job_writes jobId w = map snd (filter (\<lambda>x. fst x = jobId) (written w))"

text \<open>A job without the three fields a cancellation request rewrites.\<close>

definition core :: "job \<Rightarrow> job" where
  "core j = j |` (- {''status'', ''cancelledAt'', ''updatedAt''})"

text \<open>The world after an update of a job that exists, and after a whole stage: the
  update, then the events during the stage's work.\<close>

definition after_update :: "world \<Rightarrow> string \<Rightarrow> job \<Rightarrow> world" where
  "after_update w jobId upd = writeJson w jobId (merge_updates (the (files w jobId)) upd (now w))"

definition after_stage :: "world \<Rightarrow> string \<Rightarrow> job \<Rightarrow> event list \<Rightarrow> world" where
  "after_stage w jobId upd evs = serve evs (after_update w jobId upd)"

text \<open>How many records of job \<open>jobId\<close> the events \<open>evs\<close> write.\<close>

definition extra_writes :: "string \<Rightarrow> event list \<Rightarrow> world \<Rightarrow> nat" where
  "extra_writes jobId evs w = length (job_writes jobId (serve evs w)) - length (job_writes jobId w)"






text \<open>The progress values written to the file of job \<open>jobId\<close> between the worlds \<open>w\<close>
  and \<open>w'\<close>, each read as the status route reads it.\<close>

definition progress_written :: "string \<Rightarrow> world \<Rightarrow> world \<Rightarrow> int list" where
  "progress_written jobId w w' =
     drop (length (job_writes jobId w)) (map progress_of (job_writes jobId w'))"

text \<open>A progress trace that starts from \<open>p0\<close>, never decreases and stays between 0 and 100.\<close>

definition monotone_from :: "int \<Rightarrow> int list \<Rightarrow> bool" where
  "monotone_from p0 tr \<longleftrightarrow> sorted (p0 # tr) \<and> list_all (\<lambda>p. 0 \<le> p \<and> p \<le> 100) tr"


section \<open>Specified behaviour and example data\<close>

text \<open>The first element of a list of alternatives, when there is one.\<close>

definition first_of :: "'a list \<Rightarrow> 'a option" where
  "first_of xs = (case xs of [] \<Rightarrow> None | x # _ \<Rightarrow> Some x)"

text \<open>The third tier of \<^verbatim>\<open>parseAIResponse\<close> on its own: the text it hands to the
  parser, when its condition on the two braces holds.\<close>

definition brace_tier :: "string \<Rightarrow> string option" where
  "brace_tier t =
     (let firstBrace = indexOf t CHR ''{''; lastBrace = lastIndexOf t CHR ''}''
      in if firstBrace \<noteq> - 1 \<and> lastBrace \<noteq> - 1 \<and> lastBrace > firstBrace
         then Some (substring t firstBrace (lastBrace + 1)) else None)"

text \<open>
  The interior of the first fenced block, said directly: the text after the first
  fence and its optional \<open>json\<close> tag, up to the next fence, without the white space
  around it.
\<close>

fun after_fence :: "string \<Rightarrow> string option" where
  "after_fence [] = None"
| "after_fence (c # cs) = (if prefix fence (c # cs) then Some (drop 3 (c # cs)) else after_fence cs)"

fun before_fence :: "string \<Rightarrow> string option" where
  "before_fence [] = None"
| "before_fence (c # cs) =
     (if prefix fence (c # cs) then Some [] else map_option (Cons c) (before_fence cs))"

definition strip_tag :: "string \<Rightarrow> string" where
  "strip_tag r = (if prefix ''json'' r then drop 4 r else r)"

definition strip_right :: "string \<Rightarrow> string" where
  "strip_right s = rev (dropWhile is_space (rev s))"

definition fenced_interior :: "string \<Rightarrow> string option" where
  "fenced_interior text =
     (case after_fence text of
        None \<Rightarrow> None
      | Some r \<Rightarrow> map_option strip_right (before_fence (dropWhile is_space (strip_tag r))))"

text \<open>The substring from the first opening brace to the last closing brace, inclusive,
  when the text has an opening brace with a closing brace after it.\<close>

definition brace_slice :: "string \<Rightarrow> string option" where
  "brace_slice text =
     (let b = rev (dropWhile (\<lambda>c. c \<noteq> CHR ''}'') (rev (dropWhile (\<lambda>c. c \<noteq> CHR ''{'') text)))
      in if b = [] then None else Some b)"

text \<open>The value of an outcome, when there is one.\<close>

fun value_of :: "string + 'v \<Rightarrow> 'v option" where
  "value_of (Inr v) = Some v"
| "value_of (Inl e) = None"

text \<open>
  Extraction as the specification words it: the tiers are tried in order, each tier
  that fails gives way to the next, and the first tier that parses gives the value.
\<close>

definition extract_as_specified :: "(string \<Rightarrow> string + 'v) \<Rightarrow> string \<Rightarrow> 'v option" where
  "extract_as_specified JSON_parse text =
     (case value_of (JSON_parse text) of
        Some v \<Rightarrow> Some v
      | None \<Rightarrow>
          (case (case fenced_interior text of
                   Some interior \<Rightarrow> value_of (JSON_parse interior)
                 | None \<Rightarrow> None) of
             Some v \<Rightarrow> Some v
           | None \<Rightarrow>
               (case brace_slice text of
                  Some slice \<Rightarrow> value_of (JSON_parse slice)
                | None \<Rightarrow> None)))"

text \<open>
  The tier that decides once the whole text has failed to parse: a fenced block with a
  non-empty interior, when one is found, whether its interior parses or not; otherwise
  the brace slice, when the text has one; otherwise the failure of tier 4.
\<close>

definition deciding_tier :: "(string \<Rightarrow> string + 'v) \<Rightarrow> string \<Rightarrow> string + 'v" where
  "deciding_tier JSON_parse text =
     (case fenced_interior text of
        Some (c # cs) \<Rightarrow> JSON_parse (c # cs)
      | _ \<Rightarrow>
          (case brace_slice text of
             Some slice \<Rightarrow> JSON_parse slice
           | None \<Rightarrow> Inl (''Could not extract JSON from AI response: '' @ take 200 text)))"

text \<open>Extraction with a fenced block that decides: the parse of the whole text when it
  succeeds, and otherwise the outcome of the deciding tier.\<close>

definition extract_fence_decides :: "(string \<Rightarrow> string + 'v) \<Rightarrow> string \<Rightarrow> string + 'v" where
  "extract_fence_decides JSON_parse text =
     (case JSON_parse text of
        Inr v \<Rightarrow> Inr v
      | Inl _ \<Rightarrow>
          (case deciding_tier JSON_parse text of
             Inr v \<Rightarrow> Inr v
           | Inl e \<Rightarrow> Inl (''Could not process AI response: '' @ e)))"

text \<open>
  A parser that agrees with \<^verbatim>\<open>JSON.parse\<close> on the texts of the examples below: the
  empty object parses, an array cut short is an unexpected end of input, and the other
  texts are no JSON (the message \<^verbatim>\<open>JSON.parse\<close> gives for those, which goes on to
  name the offending token, is shortened to its first two words).
\<close>

definition example_parse :: "string \<Rightarrow> string + jsval" where
  "example_parse s =
     (if trim s = ''{}'' then Inr (JObj [])
      else if trim s = ''[1,'' then Inl ''Unexpected end of JSON input''
      else Inl ''Unexpected token'')"

text \<open>A response whose fenced block is not JSON, followed by a JSON object; and a
  response whose fenced block is JSON cut short.\<close>

definition fence_then_object :: string where
  "fence_then_object = fence @ ''see below'' @ fence @ '' {}''"

definition truncated_fence :: string where
  "truncated_fence = fence @ ''json'' @ [CHR 0x0A] @ ''[1,'' @ [CHR 0x0A] @ fence"

text \<open>The estimate as the specification words it:
  \<open>baseEstimateForType * (100 - progress) / 100\<close>.\<close>

definition eta_formula :: "int \<Rightarrow> int \<Rightarrow> real" where
  "eta_formula base progress = real_of_int base * (100 - real_of_int progress) / 100"

text \<open>The fixed base estimate of a job, in seconds, by its type.\<close>

definition base_for :: "job \<Rightarrow> int" where
  "base_for job =
     (if job ''type'' = Some (JStr ''generate'') then 480
      else if job ''type'' = Some (JStr ''analyze'') then 300
      else if job ''type'' = Some (JStr ''modernize'') then 600
      else 300)"

text \<open>A job is terminal when its status is completed, failed or cancelled.\<close>

definition terminal :: "job \<Rightarrow> bool" where
  "terminal job \<longleftrightarrow>
     job ''status'' = Some (JStr ''completed'') \<or> job ''status'' = Some (JStr ''failed'')
       \<or> job ''status'' = Some (JStr ''cancelled'')"

text \<open>A generation job that failed after planning, at progress 25.\<close>

definition failed_generate_job :: job where
  "failed_generate_job =
     [''id'' \<mapsto> JStr ''J1'', ''type'' \<mapsto> JStr ''generate'', ''status'' \<mapsto> JStr ''failed'',
      ''progress'' \<mapsto> JNum 25, ''error'' \<mapsto> JStr ''Planning analysis failed: timeout'']"

text \<open>A generation job in its generating stage, at progress 25.\<close>

definition running_generate_job :: job where
  "running_generate_job =
     [''id'' \<mapsto> JStr ''J1'', ''type'' \<mapsto> JStr ''generate'', ''status'' \<mapsto> JStr ''generating'',
      ''progress'' \<mapsto> JNum 25]"

text \<open>A world whose jobs directory holds one completed job \<open>J1\<close>.\<close>

definition completed_world :: world where
  "completed_world =
     \<lparr>files = [''J1'' \<mapsto> [''id'' \<mapsto> JStr ''J1'', ''type'' \<mapsto> JStr ''generate'',
                           ''status'' \<mapsto> JStr ''completed'', ''progress'' \<mapsto> JNum 100,
                           ''result'' \<mapsto> JStr ''/api/download/J1'']],
      written = [], now = 7\<rparr>"

text \<open>A world whose jobs directory holds one running job \<open>J1\<close>.\<close>

definition running_world :: world where
  "running_world = \<lparr>files = [''J1'' \<mapsto> running_generate_job], written = [], now = 7\<rparr>"

text \<open>The runner's update that opens the packaging stage of \<open>J1\<close>, and the update the
  cancellation request makes, as calls in progress.\<close>

definition runner_update :: call where
  "runner_update = new_call ''J1'' [''status'' \<mapsto> JStr ''packaging'', ''progress'' \<mapsto> JNum 80]"

definition cancel_update :: call where
  "cancel_update = new_call ''J1'' [''status'' \<mapsto> JStr ''cancelled'', ''cancelledAt'' \<mapsto> JDate 7]"

text \<open>A world with two running jobs.\<close>

definition two_jobs_world :: world where
  "two_jobs_world =
     \<lparr>files = [''J1'' \<mapsto> running_generate_job,
               ''J2'' \<mapsto> [''id'' \<mapsto> JStr ''J2'', ''type'' \<mapsto> JStr ''analyze'',
                          ''status'' \<mapsto> JStr ''extracting'']],
      written = [], now = 9\<rparr>"

text \<open>Collaborators that all succeed, and the same with a code generator that throws.\<close>

definition happy_env :: collaborators where
  "happy_env =
     \<lparr>planningEngine_analyzeDescription = Inr (JObj [(''app_name'', JStr ''todo'')]),
      apply_preferences = Inr,
      codeGenerator_generateMultiPlatformApp = (\<lambda>pd. Inr (JObj [(''outputDir'', JStr ''generated/J1'')])),
      packageGeneratedCode = (\<lambda>r. Inr (JObj [(''zipPath'', JStr ''generated/J1.zip'')])),
      extractCodeFiles = Inr [JStr ''a.js'', JStr ''b.js''],
      planningEngine_analyzeExistingCode = (\<lambda>fs. Inr (JObj [(''features'', JArr [])])),
      codeModernizer_modernizeCode = (\<lambda>fs. Inr (JObj [(''files'', JObj [])])),
      packageModernizedCode = (\<lambda>r. Inr (JObj [(''zipPath'', JStr ''generated/J1.zip'')]))\<rparr>"

definition failing_env :: collaborators where
  "failing_env =
     happy_env\<lparr>codeGenerator_generateMultiPlatformApp := (\<lambda>pd. Inl ''Request timed out''),
               planningEngine_analyzeExistingCode := (\<lambda>fs. Inl ''Code analysis failed: overloaded'')\<rparr>"

text \<open>The world right after the generate route created job \<open>J1\<close>.\<close>

definition created_world :: world where
  "created_world =
     fst (createJob \<lparr>files = Map.empty, written = [], now = 1\<rparr> ''J1''
            [''type'' \<mapsto> JStr ''generate'', ''description'' \<mapsto> JStr ''A to-do list app'',
             ''platforms'' \<mapsto> JArr [JStr ''ios'', JStr ''web''], ''preferences'' \<mapsto> JObj [],
             ''status'' \<mapsto> JStr ''planning'', ''createdAt'' \<mapsto> JDate 1])"

text \<open>The record of \<open>J1\<close> in that world.\<close>

definition created_job :: job where
  "created_job =
     [''id'' \<mapsto> JStr ''J1'', ''type'' \<mapsto> JStr ''generate'',
      ''description'' \<mapsto> JStr ''A to-do list app'',
      ''platforms'' \<mapsto> JArr [JStr ''ios'', JStr ''web''], ''preferences'' \<mapsto> JObj [],
      ''status'' \<mapsto> JStr ''planning'', ''createdAt'' \<mapsto> JDate 1, ''updatedAt'' \<mapsto> JDate 1]"

text \<open>A cancellation request that arrives while the planning stage is in flight.\<close>

definition cancel_during_planning :: "nat \<Rightarrow> event list" where
  "cancel_during_planning k = (if k = 0 then [Tick, Cancel ''J1'', Tick] else [Tick])"













text \<open>An error message carries a sample of the text when it contains a non-empty start of
  the text of at most 500 characters.\<close>

definition carries_sample :: "string \<Rightarrow> string \<Rightarrow> bool" where
  "carries_sample text msg \<longleftrightarrow> (\<exists>n. 0 < n \<and> n \<le> 500 \<and> sublist (take n text) msg)"

text \<open>The records \<^verbatim>\<open>parseAIResponse\<close> writes to the log: the warning when the whole
  text does not parse, and the error record when it gives up.\<close>

definition warning_record :: "string \<Rightarrow> log_record" where
  "warning_record initialError =
     \<lparr>level = ''warn'', message = ''Could not parse AI response directly, trying to trim...'',
      details = [(''error'', initialError)]\<rparr>"


definition failure_record :: "string \<Rightarrow> string \<Rightarrow> string \<Rightarrow> log_record" where
  "failure_record initialError repairError text =
     \<lparr>level = ''error'', message = ''Could not fix AI response'',
      details = [(''originalError'', initialError), (''repairError'', repairError),
                 (''responseSample'', take 500 text)]\<rparr>"

text \<open>A response that is plain prose, with no fenced block and no brace.\<close>

definition plain_prose :: string where
  "plain_prose = ''This is not JSON at all, just plain text.''"

section \<open>The job store: creation and update\<close>

text \<open>
  Claim C6 says that creating a job under an id that already exists fails with a
  duplicate-job error and leaves the stored record unchanged. \<^verbatim>\<open>createJob\<close> never
  looks at what the file holds: created again under the id of a completed job, the
  stored record is replaced.
\<close>

theorem createJob_duplicate_counterexample:
  "files (fst (createJob completed_world ''J1''
      [''type'' \<mapsto> JStr ''generate'', ''status'' \<mapsto> JStr ''planning''])) ''J1''
     \<noteq> files completed_world ''J1''"
proof
  assume "files (fst (createJob completed_world ''J1''
      [''type'' \<mapsto> JStr ''generate'', ''status'' \<mapsto> JStr ''planning''])) ''J1''
     = files completed_world ''J1''"
  then have "the (files (fst (createJob completed_world ''J1''
      [''type'' \<mapsto> JStr ''generate'', ''status'' \<mapsto> JStr ''planning''])) ''J1'') ''status''
     = the (files completed_world ''J1'') ''status''"
    by simp
  then show False
    by (simp add: createJob_def completed_world_def writeJson_def Let_def)
qed

text \<open>
  Claim C6, amended: for every job id that already exists in the store,
  \<^verbatim>\<open>createJob(id, data)\<close> succeeds and replaces the stored record by the new job:
  its \<open>createdAt\<close> and \<open>updatedAt\<close> are the time of the call, every other field is the
  one \<open>data\<close> gives (\<open>id\<close> is the job id unless \<open>data\<close> names it), no field of the
  previous record survives, and the records of other ids are untouched.
\<close>

theorem createJob_overwrites:
  assumes "files w jobId = Some old"
  shows "\<exists>w' job. createJob w jobId jobData = (w', job)
           \<and> files w' jobId = Some job
           \<and> job ''createdAt'' = Some (JDate (now w))
           \<and> job ''updatedAt'' = Some (JDate (now w))
           \<and> (\<forall>k. k \<noteq> ''createdAt'' \<and> k \<noteq> ''updatedAt'' \<longrightarrow>
                 job k = (case jobData k of Some v \<Rightarrow> Some v
                          | None \<Rightarrow> if k = ''id'' then Some (JStr jobId) else None))
           \<and> (\<forall>other. other \<noteq> jobId \<longrightarrow> files w' other = files w other)"
  by (auto simp: createJob_def writeJson_def Let_def map_add_def split: option.splits)

theorem createJob_overwrites_witness:
  "\<exists>w' job. createJob completed_world ''J1'' [''type'' \<mapsto> JStr ''analyze''] = (w', job)
      \<and> files w' ''J1'' = Some job \<and> job ''result'' = None
      \<and> job ''type'' = Some (JStr ''analyze'')"
proof -
  have "files completed_world ''J1'' \<noteq> None"
    by (simp add: completed_world_def)
  then obtain old where "files completed_world ''J1'' = Some old"
    by blast
  from createJob_overwrites [OF this, of "[''type'' \<mapsto> JStr ''analyze'']"]
  show ?thesis by fastforce
qed

text \<open>
  Claim C10 says that for every update call each field of the stored record that the call
  does not name keeps its previous value. The runner's update and the cancellation
  request's update of job \<open>J1\<close> overlap: once the runner has written, the stored progress
  is 80; the cancellation request's call, which does not name the progress, then writes
  the record it had read before, and the stored progress is 25.
\<close>

theorem updateJob_stale_frame_counterexample:
  "the (files (fst (run_schedule running_world [runner_update, cancel_update] [0, 1, 0])) ''J1'')
      ''progress'' = Some (JNum 80)
   \<and> the (files (fst (run_schedule running_world [runner_update, cancel_update] [0, 1, 0, 1])) ''J1'')
      ''progress'' = Some (JNum 25)
   \<and> updates cancel_update ''progress'' = None"
  by (simp add: runner_update_def cancel_update_def new_call_def running_world_def
      running_generate_job_def step_call_def getJob_def merge_updates_def writeJson_def)

text \<open>
  Claim C10, amended: for every existing job id and every \<^verbatim>\<open>updateJob(id, updates)\<close>
  call, the record the call stores takes each field named in \<open>updates\<close> from
  \<open>updates\<close>, each field not named from the record the call read, and \<open>updatedAt\<close>
  always from the time of the update; the records of other ids are untouched. When no
  other write of the same job falls between the call's read and its write, each field
  not named therefore keeps its previous value; when one does, the fields not named are
  stored as they were read, whatever that write had stored in them.
\<close>

theorem updateJob_frame:
  assumes "files w jobId = Some job"
  shows "\<exists>c job'. step_call w (new_call jobId upd) = (w, c) \<and> phase c = Writing job'
           \<and> (\<forall>k. k \<notin> dom upd \<and> k \<noteq> ''updatedAt'' \<longrightarrow> job' k = job k)
           \<and> (\<forall>k. k \<in> dom upd \<and> k \<noteq> ''updatedAt'' \<longrightarrow> job' k = upd k)
           \<and> job' ''updatedAt'' = Some (JDate (now w))
           \<and> (\<forall>w2. files (fst (step_call w2 c)) = (files w2)(jobId \<mapsto> job'))
           \<and> updateJob w jobId upd = Inr (fst (step_call w c), job')"
proof -
  let ?job' = "merge_updates job upd (now w)"
  let ?c = "\<lparr>target = jobId, updates = upd, phase = Writing ?job'\<rparr>"
  have s: "step_call w (new_call jobId upd) = (w, ?c)"
    using assms by (simp add: step_call_def new_call_def getJob_def)
  have frame: "(\<forall>k. k \<notin> dom upd \<and> k \<noteq> ''updatedAt'' \<longrightarrow> ?job' k = job k)
      \<and> (\<forall>k. k \<in> dom upd \<and> k \<noteq> ''updatedAt'' \<longrightarrow> ?job' k = upd k)
      \<and> ?job' ''updatedAt'' = Some (JDate (now w))"
    by (auto simp: merge_updates_def map_add_def split: option.splits)
  have wr: "\<forall>w2. files (fst (step_call w2 ?c)) = (files w2)(jobId \<mapsto> ?job')"
    by (simp add: step_call_def writeJson_def)
  have u: "updateJob w jobId upd = Inr (fst (step_call w ?c), ?job')"
    using assms by (simp add: updateJob_def getJob_def step_call_def Let_def)
  have p: "phase ?c = Writing ?job'"
    by simp
  from s p frame wr u show ?thesis
    by blast
qed

theorem updateJob_frame_witness:
  "\<exists>w' job'. updateJob running_world ''J1''
        [''status'' \<mapsto> JStr ''packaging'', ''progress'' \<mapsto> JNum 80] = Inr (w', job')
      \<and> job' ''type'' = Some (JStr ''generate'') \<and> job' ''progress'' = Some (JNum 80)
      \<and> job' ''updatedAt'' = Some (JDate 7)"
proof -
  have "files running_world ''J1'' = Some running_generate_job"
    by (simp add: running_world_def)
  from updateJob_frame [OF this, of "[''status'' \<mapsto> JStr ''packaging'', ''progress'' \<mapsto> JNum 80]"]
  obtain c job' where
    u: "updateJob running_world ''J1'' [''status'' \<mapsto> JStr ''packaging'', ''progress'' \<mapsto> JNum 80]
          = Inr (fst (step_call running_world c), job')"
    and keep: "\<forall>k. k \<notin> dom [''status'' \<mapsto> JStr ''packaging'', ''progress'' \<mapsto> JNum 80]
          \<and> k \<noteq> ''updatedAt'' \<longrightarrow> job' k = running_generate_job k"
    and new: "\<forall>k. k \<in> dom [''status'' \<mapsto> JStr ''packaging'', ''progress'' \<mapsto> JNum 80]
          \<and> k \<noteq> ''updatedAt'' \<longrightarrow> job' k = [''status'' \<mapsto> JStr ''packaging'', ''progress'' \<mapsto> JNum 80] k"
    and t: "job' ''updatedAt'' = Some (JDate (now running_world))"
    by blast
  from keep have "job' ''type'' = running_generate_job ''type''"
    by simp
  moreover from new have "job' ''progress'' = Some (JNum 80)"
    by simp
  ultimately show ?thesis
    using u t by (simp add: running_generate_job_def running_world_def)
qed

section \<open>The estimated time remaining\<close>

lemma ceil_div100_ceiling: "ceil_div100 a = \<lceil>real_of_int a / 100\<rceil>"
proof -
  have "\<lfloor>real_of_int (- a) / real_of_int 100\<rfloor> = (- a) div 100"
    by (rule floor_divide_of_int_eq)
  then show ?thesis
    by (simp add: ceil_div100_def ceiling_def)
qed

lemma baseTime_eq:
  "(case job ''type'' of
      Some (JStr t) \<Rightarrow> (case baseEstimates t of Some b \<Rightarrow> b | None \<Rightarrow> 5 * 60)
    | _ \<Rightarrow> 5 * 60) = base_for job"
  by (auto simp: base_for_def baseEstimates_def split: option.splits jsval.splits)

text \<open>
  Claim C8 says that for every stored job the status read returns
  \<open>base * (100 - progress) / 100\<close>. For a generation job that failed at progress 25
  the formula gives 360 seconds; \<^verbatim>\<open>calculateEstimatedTime\<close> returns 0, by its guard
  on completed, failed and cancelled jobs.
\<close>

theorem estimatedTimeRemaining_formula_counterexample:
  "real_of_int (calculateEstimatedTime failed_generate_job)
     \<noteq> eta_formula 480 (progress_of failed_generate_job)"
  by (simp add: calculateEstimatedTime_def failed_generate_job_def eta_formula_def
      progress_of_def)

text \<open>
  Claim C8, amended: for every stored job the status read returns an
  \<open>estimatedTimeRemaining\<close> of 0 when the job is completed, failed or cancelled, and
  otherwise \<open>base * (100 - progress) / 100\<close> rounded up to a whole second, where the
  base is the fixed constant of the job's type (generate 480, analyze 300, modernize
  600, any other type 300) and an absent progress counts as 0.
\<close>

theorem estimatedTimeRemaining_read:
  "body (get_status w jobId) ''estimatedTimeRemaining'' =
     (case files w jobId of
        None \<Rightarrow> None
      | Some job \<Rightarrow>
          Some (JNum (if terminal job then 0
                      else \<lceil>eta_formula (base_for job) (progress_of job)\<rceil>)))"
  by (simp add: get_status_def getJob_def calculateEstimatedTime_def baseTime_eq terminal_def
      ceil_div100_ceiling eta_formula_def Let_def algebra_simps split: option.splits)

theorem estimatedTimeRemaining_read_witness:
  "body (get_status running_world ''J1'') ''estimatedTimeRemaining'' = Some (JNum 360)"
  using estimatedTimeRemaining_read [of running_world "''J1''"]
  by (simp add: running_world_def running_generate_job_def terminal_def base_for_def
      progress_of_def eta_formula_def)

section \<open>Overlapping updates of the job store\<close>

lemma run_schedule_single_call:
  "run_schedule w [new_call a ua] [0, 0] =
     (case updateJob w a ua of
        Inl e \<Rightarrow> (w, [\<lparr>target = a, updates = ua, phase = Threw e\<rparr>])
      | Inr (w', _) \<Rightarrow> (w', [\<lparr>target = a, updates = ua, phase = Returned\<rparr>]))"
  by (simp add: new_call_def step_call_def updateJob_def getJob_def Let_def split: option.splits)

text \<open>
  Claim C9 says that two concurrent updates of the same job id never lose an update.
  The runner's update to progress 80 and the cancellation request's update overlap on
  job \<open>J1\<close>: both read the record, then both write. Both calls return, and the stored
  record has the progress 25 it had before: the field only the runner named is lost.
\<close>

theorem updateJob_overlap_counterexample:
  "map phase (snd (run_schedule running_world [runner_update, cancel_update] [0, 1, 0, 1]))
     = [Returned, Returned]
   \<and> the (files (fst (run_schedule running_world [runner_update, cancel_update] [0, 1, 0, 1]))
        ''J1'') ''progress'' = Some (JNum 25)
   \<and> updates runner_update ''progress'' = Some (JNum 80)"
  by (simp add: runner_update_def cancel_update_def new_call_def running_world_def
      running_generate_job_def step_call_def getJob_def merge_updates_def writeJson_def)

text \<open>
  Claim C9, amended: \<^verbatim>\<open>updateJob\<close> is a read-merge-write that holds no lock. Two
  updates of different job ids never affect each other's record: however their reads
  and writes interleave, each record ends as its own update alone leaves it. Two
  updates of the same id, run one after the other, leave a record that carries the
  fields of both; when both read before either writes, the second write is built from
  the record as it was before the first, and what only the first call named is lost.
\<close>

theorem updateJob_interleavings:
  assumes "files w a = Some ja" and "files w b = Some jb"
  shows "(a \<noteq> b \<longrightarrow> (\<forall>sched \<in> shuffles [0, 0] [1, 1].
            files (fst (run_schedule w [new_call a ua, new_call b ub] sched))
              = (files w)(a \<mapsto> merge_updates ja ua (now w), b \<mapsto> merge_updates jb ub (now w))))
       \<and> (a = b \<longrightarrow>
            files (fst (run_schedule w [new_call a ua, new_call b ub] [0, 0, 1, 1])) a
              = Some (merge_updates (merge_updates ja ua (now w)) ub (now w))
          \<and> files (fst (run_schedule w [new_call a ua, new_call b ub] [0, 1, 0, 1])) a
              = Some (merge_updates ja ub (now w)))"
  using assms
  by (auto simp: new_call_def step_call_def getJob_def writeJson_def Let_def fun_upd_twist)

theorem updateJob_interleavings_witness:
  "the (files (fst (run_schedule two_jobs_world
        [new_call ''J1'' [''progress'' \<mapsto> JNum 80], new_call ''J2'' [''progress'' \<mapsto> JNum 10]]
        [0, 1, 1, 0])) ''J1'') ''progress'' = Some (JNum 80)
   \<and> the (files (fst (run_schedule two_jobs_world
        [new_call ''J1'' [''progress'' \<mapsto> JNum 80], new_call ''J1'' [''status'' \<mapsto> JStr ''cancelled'']]
        [0, 0, 1, 1])) ''J1'') ''progress'' = Some (JNum 80)"
proof -
  have j1: "files two_jobs_world ''J1'' = Some running_generate_job"
    by (simp add: two_jobs_world_def)
  have j2: "files two_jobs_world ''J2''
      = Some [''id'' \<mapsto> JStr ''J2'', ''type'' \<mapsto> JStr ''analyze'', ''status'' \<mapsto> JStr ''extracting'']"
    by (simp add: two_jobs_world_def)
  have s: "[0, 1, 1, 0] \<in> shuffles [0, 0] [1, 1::nat]"
    by (simp add: shuffles.simps)
  from updateJob_interleavings [OF j1 j2, of "[''progress'' \<mapsto> JNum 80]" "[''progress'' \<mapsto> JNum 10]"] s
  have "files (fst (run_schedule two_jobs_world
        [new_call ''J1'' [''progress'' \<mapsto> JNum 80], new_call ''J2'' [''progress'' \<mapsto> JNum 10]]
        [0, 1, 1, 0]))
     = (files two_jobs_world)(''J1'' \<mapsto> merge_updates running_generate_job [''progress'' \<mapsto> JNum 80] (now two_jobs_world),
          ''J2'' \<mapsto> merge_updates [''id'' \<mapsto> JStr ''J2'', ''type'' \<mapsto> JStr ''analyze'', ''status'' \<mapsto> JStr ''extracting'']
             [''progress'' \<mapsto> JNum 10] (now two_jobs_world))"
    by simp
  moreover
  from updateJob_interleavings [OF j1 j1, of "[''progress'' \<mapsto> JNum 80]" "[''status'' \<mapsto> JStr ''cancelled'']"]
  have "files (fst (run_schedule two_jobs_world
        [new_call ''J1'' [''progress'' \<mapsto> JNum 80], new_call ''J1'' [''status'' \<mapsto> JStr ''cancelled'']]
        [0, 0, 1, 1])) ''J1''
     = Some (merge_updates (merge_updates running_generate_job [''progress'' \<mapsto> JNum 80] (now two_jobs_world))
          [''status'' \<mapsto> JStr ''cancelled''] (now two_jobs_world))"
    by simp
  ultimately show ?thesis
    by (simp add: merge_updates_def)
qed

section \<open>The pipeline runners\<close>

subsection \<open>Updates, events and stages on a job that exists\<close>

lemma updateJob_existing:
  "files w jobId \<noteq> None \<Longrightarrow>
     updateJob w jobId upd
       = Inr (after_update w jobId upd, merge_updates (the (files w jobId)) upd (now w))"
  by (auto simp: updateJob_def getJob_def after_update_def Let_def)

lemma updateJob_missing:
  "files w jobId = None \<Longrightarrow> updateJob w jobId upd = Inl (''Job '' @ jobId @ '' not found'')"
  by (simp add: updateJob_def getJob_def)

lemma files_after_update:
  "files (after_update w jobId upd) i
     = (if i = jobId then Some (merge_updates (the (files w jobId)) upd (now w)) else files w i)"
  by (simp add: after_update_def writeJson_def)

lemma now_after_update [simp]: "now (after_update w jobId upd) = now w"
  by (simp add: after_update_def writeJson_def)

lemma job_writes_after_update:
  "job_writes i (after_update w jobId upd)
     = job_writes i w @ (if i = jobId then [merge_updates (the (files w jobId)) upd (now w)] else [])"
  by (simp add: after_update_def writeJson_def job_writes_def)

lemma core_merge_updates: "core (merge_updates j upd t) = core j ++ core upd"
  by (rule ext) (simp add: core_def merge_updates_def restrict_map_def map_add_def)

lemma core_cancel:
  "core (merge_updates j [''status'' \<mapsto> s, ''cancelledAt'' \<mapsto> c] t) = core j"
  by (rule ext) (simp add: core_def merge_updates_def restrict_map_def map_add_def)

lemma occur_cases:
  "occur ev w = w\<lparr>now := Suc (now w)\<rparr>
   \<or> occur ev w = w
   \<or> (\<exists>i. files w i \<noteq> None \<and> occur ev w = after_update w i [''status'' \<mapsto> JStr ''cancelled'', ''cancelledAt'' \<mapsto> JDate (now w)])"
proof (cases ev)
  case Tick
  then show ?thesis by simp
next
  case (Cancel i)
  show ?thesis
  proof (cases "files w i")
    case None
    with Cancel show ?thesis by (simp add: cancel_job_def getJob_def)
  next
    case (Some j)
    then have ex: "files w i \<noteq> None" by simp
    show ?thesis
      using Cancel Some ex
      by (auto simp: cancel_job_def getJob_def updateJob_existing)
  qed
qed

lemma occur_job:
  assumes "files w jobId \<noteq> None"
  shows "files (occur ev w) jobId \<noteq> None
       \<and> core (the (files (occur ev w) jobId)) = core (the (files w jobId))
       \<and> (\<exists>rs. job_writes jobId (occur ev w) = job_writes jobId w @ rs
               \<and> (\<forall>r \<in> set rs. core r = core (the (files w jobId))))"
proof -
  consider (tick) "occur ev w = w\<lparr>now := Suc (now w)\<rparr>"
    | (same) "occur ev w = w"
    | (cancel) i where "files w i \<noteq> None"
        "occur ev w = after_update w i [''status'' \<mapsto> JStr ''cancelled'', ''cancelledAt'' \<mapsto> JDate (now w)]"
    using occur_cases [of ev w] by blast
  then show ?thesis
  proof cases
    case tick
    with assms show ?thesis by (simp add: job_writes_def)
  next
    case same
    with assms show ?thesis by simp
  next
    case cancel
    with assms show ?thesis
      by (simp add: files_after_update job_writes_after_update core_cancel)
  qed
qed

lemma serve_job:
  assumes "files w jobId \<noteq> None"
  shows "files (serve evs w) jobId \<noteq> None
       \<and> core (the (files (serve evs w) jobId)) = core (the (files w jobId))
       \<and> (\<exists>rs. job_writes jobId (serve evs w) = job_writes jobId w @ rs
               \<and> (\<forall>r \<in> set rs. core r = core (the (files w jobId))))"
  using assms
proof (induction evs arbitrary: w)
  case Nil
  then show ?case by (simp add: serve_def)
next
  case (Cons ev evs)
  let ?w = "occur ev w"
  from occur_job [OF Cons.prems, of ev]
  obtain rs1 where a: "files ?w jobId \<noteq> None"
    and b: "core (the (files ?w jobId)) = core (the (files w jobId))"
    and c: "job_writes jobId ?w = job_writes jobId w @ rs1"
    and d: "\<forall>r \<in> set rs1. core r = core (the (files w jobId))"
    by blast
  from Cons.IH [OF a]
  obtain rs2 where a2: "files (serve evs ?w) jobId \<noteq> None"
    and b2: "core (the (files (serve evs ?w) jobId)) = core (the (files ?w jobId))"
    and c2: "job_writes jobId (serve evs ?w) = job_writes jobId ?w @ rs2"
    and d2: "\<forall>r \<in> set rs2. core r = core (the (files ?w jobId))"
    by blast
  have s: "serve (ev # evs) w = serve evs ?w" by (simp add: serve_def)
  have "job_writes jobId (serve (ev # evs) w) = job_writes jobId w @ (rs1 @ rs2)"
    using c c2 s by simp
  moreover have "\<forall>r \<in> set (rs1 @ rs2). core r = core (the (files w jobId))"
    using d d2 b by auto
  ultimately show ?case
    using a2 b2 b s by metis
qed

lemma stage_existing:
  "files w jobId \<noteq> None \<Longrightarrow>
     stage w jobId upd evs work
       = (case work of Inl e \<Rightarrow> Inl (e, after_stage w jobId upd evs)
          | Inr x \<Rightarrow> Inr (after_stage w jobId upd evs, x))"
  by (simp add: stage_def updateJob_existing after_stage_def Let_def split: sum.splits)

lemma stage_missing:
  "files w jobId = None \<Longrightarrow> stage w jobId upd evs work = Inl (''Job '' @ jobId @ '' not found'', w)"
  by (simp add: stage_def updateJob_missing)

lemma after_stage_job:
  assumes "files w jobId \<noteq> None"
  shows "files (after_stage w jobId upd evs) jobId \<noteq> None"
    and "core (the (files (after_stage w jobId upd evs) jobId)) = core (the (files w jobId)) ++ core upd"
    and "\<exists>rs. job_writes jobId (after_stage w jobId upd evs)
                = job_writes jobId w @ merge_updates (the (files w jobId)) upd (now w) # rs
            \<and> (\<forall>r \<in> set rs. core r = core (the (files w jobId)) ++ core upd)"
proof -
  let ?u = "after_update w jobId upd"
  have ex: "files ?u jobId \<noteq> None" by (simp add: files_after_update)
  have cu: "core (the (files ?u jobId)) = core (the (files w jobId)) ++ core upd"
    by (simp add: files_after_update core_merge_updates)
  from serve_job [OF ex, of evs]
  show "files (after_stage w jobId upd evs) jobId \<noteq> None"
    and "core (the (files (after_stage w jobId upd evs) jobId)) = core (the (files w jobId)) ++ core upd"
    and "\<exists>rs. job_writes jobId (after_stage w jobId upd evs)
                = job_writes jobId w @ merge_updates (the (files w jobId)) upd (now w) # rs
            \<and> (\<forall>r \<in> set rs. core r = core (the (files w jobId)) ++ core upd)"
    unfolding after_stage_def using cu
    by (auto simp: job_writes_after_update)
qed


lemma after_update_as_stage: "after_update w jobId upd = after_stage w jobId upd []"
  by (simp add: after_stage_def serve_def)

lemma after_stage_exists [simp]:
  "files w jobId \<noteq> None \<Longrightarrow> files (after_stage w jobId upd evs) jobId \<noteq> None"
  by (rule after_stage_job)

lemma after_update_exists [simp]:
  "files (after_update w jobId upd) jobId \<noteq> None"
  by (simp add: files_after_update)

lemma core_field: "k \<noteq> ''status'' \<Longrightarrow> k \<noteq> ''cancelledAt'' \<Longrightarrow> k \<noteq> ''updatedAt'' \<Longrightarrow> core j k = j k"
  by (simp add: core_def)

lemma core_add: "core j ++ core upd = core (j ++ upd)"
  by (rule ext) (simp add: core_def restrict_map_def map_add_def)

lemma field_after_stage:
  assumes "files w jobId \<noteq> None" and "k \<noteq> ''status''" and "k \<noteq> ''cancelledAt''" and "k \<noteq> ''updatedAt''"
  shows "the (files (after_stage w jobId upd evs) jobId) k = (the (files w jobId) ++ upd) k"
proof -
  have "the (files (after_stage w jobId upd evs) jobId) k
      = core (the (files (after_stage w jobId upd evs) jobId)) k"
    using assms by (simp add: core_field)
  also have "\<dots> = core (the (files w jobId) ++ upd) k"
    using after_stage_job(2) [OF assms(1)] by (simp add: core_add)
  also have "\<dots> = (the (files w jobId) ++ upd) k"
    using assms by (simp add: core_field)
  finally show ?thesis .
qed

lemma progress_of_core: "core r = core j \<Longrightarrow> progress_of r = progress_of j"
proof -
  assume "core r = core j"
  then have "core r ''progress'' = core j ''progress''" by simp
  then show ?thesis by (simp add: core_field progress_of_def)
qed

lemma progress_after_stage:
  "files w jobId \<noteq> None \<Longrightarrow>
     progress_of (the (files (after_stage w jobId upd evs) jobId)) = progress_of (the (files w jobId) ++ upd)"
  by (simp add: progress_of_def field_after_stage)

lemma progress_merge_updates: "progress_of (merge_updates j upd t) = progress_of (j ++ upd)"
  by (simp add: progress_of_def merge_updates_def)

lemma trace_after_stage:
  assumes "files w jobId \<noteq> None"
  shows "map progress_of (job_writes jobId (after_stage w jobId upd evs))
       = map progress_of (job_writes jobId w)
           @ replicate (Suc (extra_writes jobId evs (after_update w jobId upd)))
               (progress_of (the (files w jobId) ++ upd))"
proof -
  let ?u = "after_update w jobId upd"
  have ex: "files ?u jobId \<noteq> None" by simp
  from serve_job [OF ex, of evs]
  obtain rs where rs: "job_writes jobId (serve evs ?u) = job_writes jobId ?u @ rs"
    and c: "\<forall>r \<in> set rs. core r = core (the (files ?u jobId))"
    by blast
  have n: "extra_writes jobId evs ?u = length rs"
    by (simp add: extra_writes_def rs)
  have "\<forall>r \<in> set rs. progress_of r = progress_of (the (files w jobId) ++ upd)"
    using c by (auto simp: files_after_update progress_merge_updates dest!: progress_of_core)
  then have "map progress_of rs = replicate (length rs) (progress_of (the (files w jobId) ++ upd))"
    by (simp add: map_replicate_const [symmetric] cong: map_cong)
  then show ?thesis
    by (simp add: after_stage_def rs n job_writes_after_update progress_merge_updates
        replicate_append_same)
qed

lemma trace_after_update:
  "map progress_of (job_writes jobId (after_update w jobId upd))
     = map progress_of (job_writes jobId w) @ [progress_of (the (files w jobId) ++ upd)]"
  by (simp add: job_writes_after_update progress_merge_updates)

lemma progress_of_upd:
  "progress_of (j(k \<mapsto> v)) = (if k = ''progress'' then (case v of JNum q \<Rightarrow> q | _ \<Rightarrow> 0) else progress_of j)"
  by (simp add: progress_of_def)

lemmas runner_defs =
  generateAppAsync_def generateAppAsync_try_def analyzeCodeAsync_def analyzeCodeAsync_try_def
  modernizeCodeAsync_def modernizeCodeAsync_try_def mark_failed_def


lemma progress_written_eq:
  "map progress_of (job_writes jobId w') = map progress_of (job_writes jobId w) @ tr
     \<Longrightarrow> progress_written jobId w w' = tr"
proof -
  assume a: "map progress_of (job_writes jobId w') = map progress_of (job_writes jobId w) @ tr"
  have "length (map progress_of (job_writes jobId w)) = length (job_writes jobId w)"
    by simp
  with a show ?thesis
    unfolding progress_written_def by (metis append_eq_conv_conj)
qed




lemma created_world_job: "files created_world ''J1'' = Some created_job"
  by (simp add: created_world_def created_job_def createJob_def writeJson_def Let_def)

lemma created_job_fields:
  "created_job ''progress'' = None"
  "created_job ''result'' = None"
  "created_job ''error'' = None"
  "created_job ''status'' = Some (JStr ''planning'')"
  by (simp_all add: created_job_def)

lemmas run_simps =
  runner_defs stage_def updateJob_def getJob_def serve_def cancel_job_def writeJson_def
  merge_updates_def created_world_def createJob_def happy_env_def failing_env_def
  cancel_during_planning_def job_writes_def progress_of_def progress_written_def Let_def

subsection \<open>Cancellation\<close>








subsection \<open>Result and error of a finished job\<close>








subsection \<open>Progress\<close>

lemma generate_trace:
  assumes "files w jobId = Some job" and "0 \<le> progress_of job" and "progress_of job \<le> 10"
  shows "\<exists>tr. map progress_of (job_writes jobId (fst (generateAppAsync env ext jobId w)))
             = map progress_of (job_writes jobId w) @ tr
          \<and> sorted (progress_of job # tr) \<and> (\<forall>p \<in> set tr. 0 \<le> p \<and> p \<le> 100)"
proof -
  have ex: "files w jobId \<noteq> None" and j: "the (files w jobId) = job"
    using assms by simp_all
  show ?thesis
    using ex assms(2,3)
    by (auto simp: runner_defs stage_existing updateJob_existing trace_after_stage trace_after_update
        progress_after_stage progress_of_upd j sorted_append
        split: sum.splits)
qed

lemma analyze_trace:
  assumes "files w jobId = Some job" and "0 \<le> progress_of job" and "progress_of job \<le> 10"
  shows "\<exists>tr. map progress_of (job_writes jobId (fst (analyzeCodeAsync env ext jobId w)))
             = map progress_of (job_writes jobId w) @ tr
          \<and> sorted (progress_of job # tr) \<and> (\<forall>p \<in> set tr. 0 \<le> p \<and> p \<le> 100)"
proof -
  have ex: "files w jobId \<noteq> None" and j: "the (files w jobId) = job"
    using assms by simp_all
  show ?thesis
    using ex assms(2,3)
    by (auto simp: runner_defs stage_existing updateJob_existing trace_after_stage trace_after_update
        progress_after_stage progress_of_upd j sorted_append
        split: sum.splits)
qed

lemma modernize_trace:
  assumes "files w jobId = Some job" and "0 \<le> progress_of job" and "progress_of job \<le> 10"
  shows "\<exists>tr. map progress_of (job_writes jobId (fst (modernizeCodeAsync env ext jobId w)))
             = map progress_of (job_writes jobId w) @ tr
          \<and> sorted (progress_of job # tr) \<and> (\<forall>p \<in> set tr. 0 \<le> p \<and> p \<le> 100)"
proof -
  have ex: "files w jobId \<noteq> None" and j: "the (files w jobId) = job"
    using assms by simp_all
  show ?thesis
    using ex assms(2,3)
    by (auto simp: runner_defs stage_existing updateJob_existing trace_after_stage trace_after_update
        progress_after_stage progress_of_upd j sorted_append
        split: sum.splits)
qed

lemma monotone_from_trace:
  assumes "\<exists>tr. map progress_of (job_writes jobId w') = map progress_of (job_writes jobId w) @ tr
          \<and> sorted (p0 # tr) \<and> (\<forall>p \<in> set tr. 0 \<le> p \<and> p \<le> 100)"
  shows "monotone_from p0 (progress_written jobId w w')"
proof -
  from assms obtain tr where
    a: "map progress_of (job_writes jobId w') = map progress_of (job_writes jobId w) @ tr"
    and b: "sorted (p0 # tr)" and c: "\<forall>p \<in> set tr. 0 \<le> p \<and> p \<le> 100"
    by blast
  from a have "progress_written jobId w w' = tr" by (rule progress_written_eq)
  with b c show ?thesis by (simp add: monotone_from_def list_all_iff)
qed


text \<open>
  Claim C7 says that no update ever resets the progress of a job backward within one
  run. The runner's update to progress 80 and the cancellation request's update overlap
  on job \<open>J1\<close>: the request read the record at progress 25 before the runner wrote, and
  writes it back afterwards. The progress written to the job's file is 80, then 25, and
  the job was not in a terminal state when the second write reset it.
\<close>

theorem progress_reset_counterexample:
  "map progress_of (job_writes ''J1''
      (fst (run_schedule running_world [runner_update, cancel_update] [0, 1, 0, 1]))) = [80, 25]
   \<and> \<not> terminal (the (files
      (fst (run_schedule running_world [runner_update, cancel_update] [0, 1, 0])) ''J1''))"
  by (simp add: runner_update_def cancel_update_def new_call_def running_world_def
      running_generate_job_def step_call_def getJob_def merge_updates_def writeJson_def
      job_writes_def progress_of_def terminal_def)

text \<open>
  Claim C7, amended: for every job whose stored progress is between 0 and 10 when the
  run starts (a job the routes have just created has none, which reads as 0) and every
  run of the pipeline in which each update of the job and each cancellation request
  runs as one operation, the progress written to the job's file, read as the status
  route reads it, lies between 0 and 100 and never decreases from one write to the
  next, whatever cancellation requests are served while the stages are in flight.
\<close>

theorem progress_monotone:
  assumes "files w jobId = Some job" and "0 \<le> progress_of job" and "progress_of job \<le> 10"
  shows "monotone_from (progress_of job)
           (progress_written jobId w (fst (generateAppAsync env ext jobId w)))
       \<and> monotone_from (progress_of job)
           (progress_written jobId w (fst (analyzeCodeAsync env ext jobId w)))
       \<and> monotone_from (progress_of job)
           (progress_written jobId w (fst (modernizeCodeAsync env ext jobId w)))"
  using generate_trace [OF assms] analyze_trace [OF assms] modernize_trace [OF assms]
  by (simp add: monotone_from_trace)

theorem progress_monotone_witness:
  "progress_written ''J1'' created_world
       (fst (generateAppAsync happy_env cancel_during_planning ''J1'' created_world))
     = [0, 0, 25, 80, 100]
   \<and> monotone_from 0 [0, 0, 25, 80, 100]"
proof -
  have run: "progress_written ''J1'' created_world
       (fst (generateAppAsync happy_env cancel_during_planning ''J1'' created_world))
     = [0, 0, 25, 80, 100]"
    by (simp add: run_simps)
  have p: "progress_of created_job = 0"
    by (simp add: progress_of_def created_job_fields)
  then have "0 \<le> progress_of created_job" and "progress_of created_job \<le> 10"
    by simp_all
  from progress_monotone [OF created_world_job this, of happy_env cancel_during_planning] run p
  show ?thesis by simp
qed

section \<open>Multi-platform code generation\<close>


lemma first_rejection_Some:
  assumes "first_rejection t outs = Some e"
  shows "Inl e \<in> set outs"
proof (cases "filter (\<lambda>i. isl (outs ! i)) [0..<length outs]")
  case Nil
  with assms show ?thesis
    by (simp add: first_rejection_def)
next
  case (Cons i rest)
  let ?m = "arg_min_list t (i # rest)"
  have "?m \<in> set (i # rest)"
    by (rule arg_min_list_in) simp
  then have "?m \<in> set (filter (\<lambda>i. isl (outs ! i)) [0..<length outs])"
    using Cons by simp
  then have m: "?m < length outs"
    by auto
  from assms Cons have "outs ! ?m = Inl e"
    by (simp add: first_rejection_def split: sum.splits)
  with m show ?thesis
    by (metis nth_mem)
qed















section \<open>Structured-response extraction\<close>

subsection \<open>The fenced-block pattern finds the first fenced interior\<close>

lemma backtick_not_space [simp]: "\<not> is_space (CHR 0x60)"
  by (simp add: is_space_def)

lemma prefix_fence_Cons: "prefix fence (c # cs) \<Longrightarrow> c = CHR 0x60"
  by (simp add: fence_def)

lemma fence_not_Nil [simp]: "fence \<noteq> []"
  by (simp add: fence_def)

lemma prefix_fence_not_space: "is_space c \<Longrightarrow> \<not> prefix fence (c # cs)"
  by (auto dest: prefix_fence_Cons)

lemma spaces_then_fence:
  "concat (map (\<lambda>r4. if prefix fence r4 then [cap] else []) (spaces_greedy r3))
     = (if prefix fence (dropWhile is_space r3) then [cap] else [])"
proof (induction r3)
  case Nil
  then show ?case by simp
next
  case (Cons c cs)
  let ?f = "\<lambda>r4. if prefix fence r4 then [cap] else []"
  show ?case
  proof (cases "is_space c")
    case True
    then have "concat (map ?f (spaces_greedy (c # cs))) = concat (map ?f (spaces_greedy cs)) @ ?f (c # cs)"
      by simp
    also have "\<dots> = (if prefix fence (dropWhile is_space cs) then [cap] else []) @ ?f (c # cs)"
      by (simp only: Cons.IH)
    also have "\<dots> = (if prefix fence (dropWhile is_space (c # cs)) then [cap] else [])"
      using True by (simp add: prefix_fence_not_space)
    finally show ?thesis .
  next
    case False
    then show ?thesis by simp
  qed
qed

lemma lazy_until_fence_Nil: "lazy_until_fence [] = []"
  by (simp add: lazy_until_fence_def fence_def)

lemma lazy_until_fence_Cons:
  "lazy_until_fence (c # cs)
     = (if prefix fence (dropWhile is_space (c # cs)) then [[]] else [])
         @ map (Cons c) (lazy_until_fence cs)"
proof -
  have "concat (map (\<lambda>(cap, r3). if prefix fence (dropWhile is_space r3) then [cap] else [])
            (map (\<lambda>(cap, r). (c # cap, r)) xs))
      = map (Cons c) (concat (map (\<lambda>(cap, r3). if prefix fence (dropWhile is_space r3) then [cap] else []) xs))"
    for xs :: "(string \<times> string) list"
    by (induction xs) auto
  then show ?thesis
    by (simp add: lazy_until_fence_def spaces_then_fence del: dropWhile.simps)
qed

lemma first_of_simps [simp]:
  "first_of [] = None" "first_of (x # xs) = Some x"
  "first_of (xs @ ys) = (case first_of xs of None \<Rightarrow> first_of ys | Some x \<Rightarrow> Some x)"
  "first_of (map f xs) = map_option f (first_of xs)"
  by (cases xs; simp add: first_of_def)+

lemma before_fence_spaces:
  "prefix fence (dropWhile is_space s) \<Longrightarrow> before_fence s = Some (takeWhile is_space s)"
  by (induction s) (auto simp: prefix_fence_not_space)

lemma before_fence_append:
  "before_fence s = Some inner \<Longrightarrow> \<exists>rest. s = inner @ fence @ rest"
proof (induction s arbitrary: inner)
  case Nil
  then show ?case by simp
next
  case (Cons c cs)
  show ?case
  proof (cases "prefix fence (c # cs)")
    case True
    with Cons.prems show ?thesis by (auto simp: prefix_def)
  next
    case False
    with Cons.prems obtain i where i: "before_fence cs = Some i" "inner = c # i"
      by auto
    from Cons.IH [OF i(1)] i(2) show ?thesis by auto
  qed
qed

lemma strip_right_spaces: "\<forall>c \<in> set s. is_space c \<Longrightarrow> strip_right s = []"
  by (simp add: strip_right_def dropWhile_eq_Nil_conv)

lemma strip_right_Cons:
  "strip_right (c # s) = (if is_space c \<and> (\<forall>x \<in> set s. is_space x) then [] else c # strip_right s)"
  by (auto simp: strip_right_def dropWhile_append dropWhile_eq_Nil_conv)

lemma first_lazy_until_fence:
  "first_of (lazy_until_fence s) = map_option strip_right (before_fence s)"
proof (induction s)
  case Nil
  then show ?case by (simp add: lazy_until_fence_Nil)
next
  case (Cons c cs)
  show ?case
  proof (cases "prefix fence (dropWhile is_space (c # cs))")
    case True
    then have "before_fence (c # cs) = Some (takeWhile is_space (c # cs))"
      by (rule before_fence_spaces)
    moreover have "strip_right (takeWhile is_space (c # cs)) = []"
      by (rule strip_right_spaces) (auto dest: set_takeWhileD)
    ultimately show ?thesis
      using True by (simp add: lazy_until_fence_Cons del: dropWhile.simps takeWhile.simps before_fence.simps)
  next
    case False
    have nf: "\<not> prefix fence (c # cs)"
    proof
      assume p: "prefix fence (c # cs)"
      then have "\<not> is_space c"
        by (auto dest: prefix_fence_Cons)
      with p False show False by simp
    qed
    have "map_option strip_right (before_fence (c # cs))
        = map_option (Cons c) (map_option strip_right (before_fence cs))"
    proof (cases "before_fence cs")
      case None
      with nf show ?thesis by simp
    next
      case (Some inner)
      then obtain rest where cs: "cs = inner @ fence @ rest"
        using before_fence_append by blast
      have "\<not> (is_space c \<and> (\<forall>x \<in> set inner. is_space x))"
      proof
        assume a: "is_space c \<and> (\<forall>x \<in> set inner. is_space x)"
        then have "dropWhile is_space (c # cs) = fence @ rest"
          using cs by (simp add: dropWhile_append fence_def)
        with False show False by simp
      qed
      then have "strip_right (c # inner) = c # strip_right inner"
        by (simp add: strip_right_Cons)
      with nf Some show ?thesis by simp
    qed
    with False Cons.IH show ?thesis
      by (simp add: lazy_until_fence_Cons del: dropWhile.simps before_fence.simps)
  qed
qed


lemma first_of_None: "first_of xs = None \<longleftrightarrow> xs = []"
  by (cases xs) simp_all

lemma before_fence_tl: "before_fence (c # cs) = None \<Longrightarrow> before_fence cs = None"
  by (simp split: if_splits)

lemma before_fence_drop: "before_fence s = None \<Longrightarrow> before_fence (drop n s) = None"
proof (induction n arbitrary: s)
  case 0
  then show ?case by simp
next
  case (Suc n)
  show ?case
  proof (cases s)
    case Nil
    then show ?thesis by simp
  next
    case (Cons c cs)
    with Suc.prems have "before_fence cs = None"
      using before_fence_tl by blast
    with Suc.IH Cons show ?thesis by simp
  qed
qed

lemma before_fence_skip:
  "c \<noteq> CHR 0x60 \<Longrightarrow> before_fence (c # cs) = map_option (Cons c) (before_fence cs)"
  by (auto dest: prefix_fence_Cons)

lemma before_fence_dropWhile:
  "before_fence (dropWhile is_space s) = None \<longleftrightarrow> before_fence s = None"
proof (induction s)
  case Nil
  then show ?case by simp
next
  case (Cons c cs)
  show ?case
  proof (cases "is_space c")
    case True
    then have "c \<noteq> CHR 0x60" by auto
    then have "before_fence (c # cs) = map_option (Cons c) (before_fence cs)"
      by (rule before_fence_skip)
    with True Cons.IH show ?thesis by simp
  next
    case False
    then show ?thesis by simp
  qed
qed

lemma before_fence_strip_tag:
  "before_fence (strip_tag r) = None \<longleftrightarrow> before_fence r = None"
proof (cases "prefix ''json'' r")
  case True
  then obtain rest where r: "r = ''json'' @ rest"
    by (auto simp: prefix_def)
  then have "before_fence r = map_option (\<lambda>x. ''json'' @ x) (before_fence rest)"
    by (simp add: before_fence_skip option.map_comp comp_def del: before_fence.simps)
  with r show ?thesis
    by (simp add: strip_tag_def)
next
  case False
  then show ?thesis by (simp add: strip_tag_def)
qed

lemma first_leading_spaces:
  "first_of (concat (map lazy_until_fence (spaces_greedy r1)))
     = first_of (lazy_until_fence (dropWhile is_space r1))"
proof (induction r1)
  case Nil
  then show ?case by simp
next
  case (Cons c cs)
  let ?X = "concat (map lazy_until_fence (spaces_greedy cs))"
  show ?case
  proof (cases "is_space c")
    case True
    have eq: "first_of (concat (map lazy_until_fence (spaces_greedy (c # cs))))
        = (case first_of ?X of None \<Rightarrow> first_of (lazy_until_fence (c # cs)) | Some x \<Rightarrow> Some x)"
      using True by simp
    show ?thesis
    proof (cases "first_of ?X")
      case None
      then have n: "first_of (lazy_until_fence (dropWhile is_space cs)) = None"
        using Cons.IH by simp
      then have "before_fence (dropWhile is_space cs) = None"
        by (simp add: first_lazy_until_fence)
      then have "before_fence cs = None"
        by (simp add: before_fence_dropWhile)
      moreover have "c \<noteq> CHR 0x60" using True by auto
      ultimately have "before_fence (c # cs) = None"
        by (simp add: before_fence_skip del: before_fence.simps)
      then have "first_of (lazy_until_fence (c # cs)) = None"
        by (simp add: first_lazy_until_fence del: before_fence.simps)
      moreover have "first_of (lazy_until_fence (dropWhile is_space (c # cs))) = None"
        using True n by simp
      ultimately show ?thesis
        using eq None by simp
    next
      case (Some x)
      then have "first_of (lazy_until_fence (dropWhile is_space cs)) = Some x"
        using Cons.IH by simp
      with eq Some True show ?thesis by simp
    qed
  next
    case False
    then show ?thesis by simp
  qed
qed

lemma first_match_here:
  "first_of (match_here s)
     = (if prefix fence s
        then map_option strip_right (before_fence (dropWhile is_space (strip_tag (drop 3 s))))
        else None)"
proof (cases "prefix fence s")
  case False
  then show ?thesis by (simp add: match_here_def)
next
  case True
  let ?G = "\<lambda>r1. concat (map lazy_until_fence (spaces_greedy r1))"
  let ?r = "drop 3 s"
  have G: "first_of (?G r1) = map_option strip_right (before_fence (dropWhile is_space r1))" for r1
    by (simp add: first_leading_spaces first_lazy_until_fence)
  show ?thesis
  proof (cases "prefix ''json'' ?r")
    case False
    with True show ?thesis
      by (simp add: match_here_def opt_json_def strip_tag_def G)
  next
    case json: True
    have m: "match_here s = ?G (drop 4 ?r) @ ?G ?r"
      using True json by (simp add: match_here_def opt_json_def)
    show ?thesis
    proof (cases "before_fence (dropWhile is_space (drop 4 ?r))")
      case (Some inner)
      with m True json show ?thesis
        by (simp add: strip_tag_def G del: drop_drop)
    next
      case None
      then have "before_fence (strip_tag ?r) = None"
        using json by (simp add: before_fence_dropWhile strip_tag_def del: drop_drop)
      then have "before_fence ?r = None"
        by (simp add: before_fence_strip_tag)
      then have "first_of (?G ?r) = None"
        by (simp add: G before_fence_dropWhile)
      with m None True json show ?thesis
        by (simp add: strip_tag_def G del: drop_drop)
    qed
  qed
qed

lemma regex_match_step:
  "regex_match (c # cs)
     = (case first_of (match_here (c # cs)) of Some cap \<Rightarrow> Some cap | None \<Rightarrow> regex_match cs)"
  by (cases "match_here (c # cs)") simp_all

lemma regex_match_no_fence:
  "before_fence (drop 3 s) = None \<Longrightarrow> regex_match s = None"
proof (induction s)
  case Nil
  then show ?case by simp
next
  case (Cons c cs)
  from Cons.prems have "before_fence (drop 1 (drop 3 (c # cs))) = None"
    by (rule before_fence_drop)
  then have "before_fence (drop 3 cs) = None"
    by (simp add: numeral_3_eq_3)
  then have rest: "regex_match cs = None"
    by (rule Cons.IH)
  from Cons.prems have "before_fence (dropWhile is_space (strip_tag (drop 3 (c # cs)))) = None"
    by (simp only: before_fence_dropWhile before_fence_strip_tag)
  then have "first_of (match_here (c # cs)) = None"
    by (simp only: first_match_here) simp
  with rest show ?case
    by (simp only: regex_match_step) simp
qed

lemma regex_match_fenced_interior: "regex_match s = fenced_interior s"
proof (induction s)
  case Nil
  then show ?case by (simp add: fenced_interior_def)
next
  case (Cons c cs)
  show ?case
  proof (cases "prefix fence (c # cs)")
    case False
    then have "first_of (match_here (c # cs)) = None"
      by (simp only: first_match_here) simp
    moreover have "fenced_interior (c # cs) = fenced_interior cs"
      using False by (simp add: fenced_interior_def)
    ultimately show ?thesis
      using Cons.IH by (simp only: regex_match_step) simp
  next
    case True
    let ?b = "before_fence (dropWhile is_space (strip_tag (drop 3 (c # cs))))"
    have f: "fenced_interior (c # cs) = map_option strip_right ?b"
      using True by (simp add: fenced_interior_def)
    have m: "first_of (match_here (c # cs)) = map_option strip_right ?b"
      using True by (simp only: first_match_here) simp
    show ?thesis
    proof (cases ?b)
      case (Some inner)
      with f m show ?thesis
        by (simp only: regex_match_step) simp
    next
      case None
      then have "before_fence (drop 3 (c # cs)) = None"
        by (simp only: before_fence_dropWhile before_fence_strip_tag)
      then have "before_fence (drop 1 (drop 3 (c # cs))) = None"
        by (rule before_fence_drop)
      then have "before_fence (drop 3 cs) = None"
        by (simp add: numeral_3_eq_3)
      then have "regex_match cs = None"
        by (rule regex_match_no_fence)
      with None f m show ?thesis
        by (simp only: regex_match_step) simp
    qed
  qed
qed

subsection \<open>The brace tier and the tiers together\<close>

lemma indexOf_notin: "c \<notin> set s \<Longrightarrow> indexOf s c = - 1"
  by (induction s) auto

lemma indexOf_in: "c \<in> set s \<Longrightarrow> 0 \<le> indexOf s c"
  by (induction s) (auto simp: Let_def)

lemma indexOf_append:
  "c \<notin> set xs \<Longrightarrow> c \<in> set ys \<Longrightarrow> indexOf (xs @ ys) c = int (length xs) + indexOf ys c"
proof (induction xs)
  case Nil
  then show ?case by simp
next
  case (Cons x xs)
  then have "0 \<le> indexOf ys c" by (simp add: indexOf_in)
  with Cons show ?case by (auto simp: Let_def)
qed

lemma indexOf_first: "c \<notin> set xs \<Longrightarrow> indexOf (xs @ c # ys) c = int (length xs)"
  by (simp add: indexOf_append)

lemma lastIndexOf_notin: "c \<notin> set s \<Longrightarrow> lastIndexOf s c = - 1"
  by (simp add: lastIndexOf_def indexOf_notin)

lemma lastIndexOf_last: "c \<notin> set ys \<Longrightarrow> lastIndexOf (xs @ c # ys) c = int (length xs)"
  by (simp add: lastIndexOf_def indexOf_first Let_def)

lemma lastIndexOf_before:
  assumes "c \<in> set xs" and "c \<notin> set ys"
  shows "lastIndexOf (xs @ ys) c < int (length xs)" and "lastIndexOf (xs @ ys) c \<noteq> - 1"
proof -
  from assms(1) obtain u v where xs: "xs = u @ c # v" and v: "c \<notin> set v"
    by (auto dest: split_list_last)
  have "lastIndexOf (u @ c # (v @ ys)) c = int (length u)"
    using v assms(2) by (intro lastIndexOf_last) simp
  then have l: "lastIndexOf (xs @ ys) c = int (length u)"
    by (simp add: xs)
  show "lastIndexOf (xs @ ys) c < int (length xs)"
    using l by (simp add: xs)
  show "lastIndexOf (xs @ ys) c \<noteq> - 1"
    using l by simp
qed

lemma substring_take: "substring s 0 (int n) = take n s"
  by (auto simp: substring_def Let_def min_def max_def)

lemma substring_take_200: "substring s 0 200 = take 200 s"
  using substring_take [of s 200] by simp

lemma substring_take_500: "substring s 0 500 = take 500 s"
  using substring_take [of s 500] by simp

lemma substring_middle:
  "substring (a @ m @ z) (int (length a)) (int (length a) + int (length m)) = m"
  by (simp add: substring_def Let_def min_def max_def)

lemma brace_tier_slice: "brace_tier t = brace_slice t"
proof (cases "CHR ''{'' \<in> set t")
  case False
  then have dw: "dropWhile (\<lambda>c. c \<noteq> CHR ''{'') t = []"
    by (auto simp: dropWhile_eq_Nil_conv)
  have "brace_slice t = None"
    unfolding brace_slice_def dw by simp
  with False show ?thesis
    by (simp add: brace_tier_def indexOf_notin)
next
  case True
  then obtain a r where t: "t = a @ CHR ''{'' # r" and a: "CHR ''{'' \<notin> set a"
    by (auto dest: split_list_first)
  have first: "indexOf t CHR ''{'' = int (length a)"
    using a by (simp add: t indexOf_first)
  have dw: "dropWhile (\<lambda>c. c \<noteq> CHR ''{'') t = CHR ''{'' # r"
    using a by (auto simp: t dropWhile_append3)
  show ?thesis
  proof (cases "CHR ''}'' \<in> set r")
    case True
    then obtain u v where r: "r = u @ CHR ''}'' # v" and v: "CHR ''}'' \<notin> set v"
      by (auto dest: split_list_last)
    have "lastIndexOf ((a @ CHR ''{'' # u) @ CHR ''}'' # v) CHR ''}'' = int (length (a @ CHR ''{'' # u))"
      using v by (rule lastIndexOf_last)
    then have last: "lastIndexOf t CHR ''}'' = int (length a) + 1 + int (length u)"
      by (simp add: t r)
    have "substring (a @ (CHR ''{'' # u @ [CHR ''}'']) @ v) (int (length a))
            (int (length a) + int (length (CHR ''{'' # u @ [CHR ''}'']))) = CHR ''{'' # u @ [CHR ''}'']"
      by (rule substring_middle)
    then have sub: "substring t (int (length a)) (int (length a) + 1 + int (length u) + 1)
        = CHR ''{'' # u @ [CHR ''}'']"
      by (simp add: t r add.commute add.left_commute)
    have dr: "dropWhile (\<lambda>c. c \<noteq> CHR ''}'') (rev (CHR ''{'' # r)) = CHR ''}'' # rev u @ [CHR ''{'']"
      using v by (auto simp: r dropWhile_append3)
    have "brace_slice t = Some (CHR ''{'' # u @ [CHR ''}''])"
      unfolding brace_slice_def dw dr by simp
    with first last sub show ?thesis
      by (simp add: brace_tier_def)
  next
    case False
    then have dr: "dropWhile (\<lambda>c. c \<noteq> CHR ''}'') (rev (CHR ''{'' # r)) = []"
      by (auto simp: dropWhile_eq_Nil_conv)
    have none: "brace_slice t = None"
      unfolding brace_slice_def dw dr by simp
    show ?thesis
    proof (cases "CHR ''}'' \<in> set a")
      case True
      from lastIndexOf_before(1) [OF True, of "CHR ''{'' # r"] False
      have "lastIndexOf t CHR ''}'' < int (length a)"
        by (simp add: t)
      with first none show ?thesis
        by (simp add: brace_tier_def)
    next
      case na: False
      with False have "CHR ''}'' \<notin> set t"
        by (simp add: t)
      then have "lastIndexOf t CHR ''}'' = - 1"
        by (rule lastIndexOf_notin)
      with none show ?thesis
        by (simp add: brace_tier_def)
    qed
  qed
qed

lemma trim_id:
  assumes "x = [] \<or> (\<not> is_space (hd x) \<and> \<not> is_space (last x))"
  shows "trim x = x"
proof (cases x)
  case Nil
  then show ?thesis by (simp add: trim_def)
next
  case (Cons c cs)
  with assms have h: "\<not> is_space c" and l: "\<not> is_space (last x)"
    by auto
  from h Cons have "dropWhile is_space x = x"
    by simp
  moreover have "dropWhile is_space (rev x) = rev x"
  proof (cases "rev x")
    case Nil
    then show ?thesis by simp
  next
    case r: (Cons y ys)
    then have "y = last x"
      using Cons by (metis hd_rev list.distinct(1) list.sel(1))
    with l have "dropWhile is_space (y # ys) = y # ys"
      by simp
    then show ?thesis
      unfolding r .
  qed
  ultimately show ?thesis
    by (simp add: trim_def)
qed

lemma strip_right_ends:
  "strip_right s = [] \<or> \<not> is_space (last (strip_right s))"
proof (cases "dropWhile is_space (rev s)")
  case Nil
  then show ?thesis by (simp add: strip_right_def)
next
  case (Cons c cs)
  then have "\<not> is_space c"
    by (metis hd_dropWhile list.sel(1) list.distinct(1))
  with Cons show ?thesis
    by (simp add: strip_right_def)
qed

lemma strip_right_hd:
  "strip_right s \<noteq> [] \<Longrightarrow> hd (strip_right s) = hd s"
proof -
  assume ne: "strip_right s \<noteq> []"
  have "rev s = takeWhile is_space (rev s) @ dropWhile is_space (rev s)"
    by simp
  then have "s = strip_right s @ rev (takeWhile is_space (rev s))"
    unfolding strip_right_def by (metis rev_append rev_rev_ident)
  with ne show ?thesis
    by (metis hd_append2)
qed

lemma fenced_interior_trimmed:
  assumes "fenced_interior text = Some cap"
  shows "trim cap = cap"
proof -
  from assms obtain r inner where
    inner: "before_fence (dropWhile is_space (strip_tag r)) = Some inner"
    and cap: "cap = strip_right inner"
    by (auto simp: fenced_interior_def split: option.splits)
  let ?body = "dropWhile is_space (strip_tag r)"
  from inner obtain rest where body: "?body = inner @ fence @ rest"
    using before_fence_append by blast
  have start: "inner = [] \<or> \<not> is_space (hd inner)"
  proof (cases inner)
    case Nil
    then show ?thesis by simp
  next
    case (Cons c cs)
    with body have "?body = c # (cs @ fence @ rest)" by simp
    then have "\<not> is_space c"
      by (metis hd_dropWhile list.sel(1) list.distinct(1))
    with Cons show ?thesis by simp
  qed
  show ?thesis
  proof (cases "cap = []")
    case True
    then show ?thesis by (simp add: trim_def)
  next
    case False
    then have "hd cap = hd inner" and "inner \<noteq> []"
      using cap strip_right_hd by (auto simp: strip_right_def)
    with start have "\<not> is_space (hd cap)" by simp
    moreover have "\<not> is_space (last cap)"
      using False cap strip_right_ends by auto
    ultimately show ?thesis
      by (intro trim_id) simp
  qed
qed

lemma repair_eq: "repair P t = deciding_tier P t"
proof (cases "fenced_interior t")
  case None
  then show ?thesis
    using brace_tier_slice [of t]
    by (auto simp: repair_def deciding_tier_def regex_match_fenced_interior brace_tier_def
        substring_take_200 Let_def split: option.splits if_splits)
next
  case (Some cap)
  show ?thesis
  proof (cases cap)
    case Nil
    with Some show ?thesis
      using brace_tier_slice [of t]
      by (auto simp: repair_def deciding_tier_def regex_match_fenced_interior brace_tier_def
          substring_take_200 Let_def split: option.splits if_splits)
  next
    case (Cons c cs)
    with Some have "trim (c # cs) = c # cs"
      using fenced_interior_trimmed by blast
    with Some Cons show ?thesis
      by (simp add: repair_def deciding_tier_def regex_match_fenced_interior)
  qed
qed

lemma parseAIResponse_eq:
  "parseAIResponse P t =
     (case P t of
        Inr v \<Rightarrow> ([], Inr v)
      | Inl initialError \<Rightarrow>
          (case deciding_tier P t of
             Inr v \<Rightarrow> ([warning_record initialError], Inr v)
           | Inl repairError \<Rightarrow>
               ([warning_record initialError, failure_record initialError repairError t],
                Inl (''Could not process AI response: '' @ repairError))))"
  by (simp add: parseAIResponse_def repair_eq warning_record_def failure_record_def
      substring_take_500 Let_def split: sum.splits)

lemma example_parse_simps:
  "example_parse fence_then_object = Inl ''Unexpected token''"
  "example_parse ''see below'' = Inl ''Unexpected token''"
  "example_parse ''{}'' = Inr (JObj [])"
  "example_parse truncated_fence = Inl ''Unexpected token''"
  "example_parse ''[1,'' = Inl ''Unexpected end of JSON input''"
  by (simp_all add: example_parse_def trim_def is_space_def fence_then_object_def
      truncated_fence_def fence_def)

lemma example_interiors:
  "fenced_interior fence_then_object = Some ''see below''"
  "brace_slice fence_then_object = Some ''{}''"
  "fenced_interior truncated_fence = Some ''[1,''"
  by (simp_all add: fenced_interior_def brace_slice_def fence_then_object_def truncated_fence_def
      fence_def strip_tag_def strip_right_def is_space_def)

text \<open>
  Claim C3 says that extraction returns the value of the first tier that succeeds, and
  that whenever an earlier tier fails the next one is attempted. The response below
  has a fenced block that is not JSON, followed by the object \<open>{}\<close>: the whole text
  and the fenced interior do not parse, the brace slice does, and tried in order the
  tiers yield the object. \<^verbatim>\<open>parseAIResponse\<close> throws: the fenced block was found, so
  the brace slice is never tried.
\<close>

theorem tier_order_counterexample:
  "value_of (snd (parseAIResponse example_parse fence_then_object)) = None
   \<and> extract_as_specified example_parse fence_then_object = Some (JObj [])"
  by (simp add: parseAIResponse_eq deciding_tier_def extract_as_specified_def example_parse_simps
      example_interiors)

text \<open>
  Claim C3, amended: for every input text, extraction tries the tiers in strict
  precedence order, never a later tier before an earlier one. It returns the parse of
  the whole text if it parses. Otherwise, if a fenced (triple-backtick, optionally
  tagged) block with a non-empty interior is found, the outcome is the parse of that
  interior, and extraction fails if it does not parse: the brace tier is not attempted
  then. Only when no such block is found does it parse the substring from the first
  opening brace to the last closing brace inclusive, and it fails when there is no such
  substring or it does not parse.
\<close>

theorem parseAIResponse_fence_decides:
  "snd (parseAIResponse JSON_parse response) = extract_fence_decides JSON_parse response"
  by (simp add: parseAIResponse_eq extract_fence_decides_def split: sum.splits)

theorem parseAIResponse_fence_decides_witness:
  "snd (parseAIResponse example_parse fence_then_object)
     = Inl ''Could not process AI response: Unexpected token''"
  using parseAIResponse_fence_decides [of example_parse fence_then_object]
  by (simp add: extract_fence_decides_def deciding_tier_def example_parse_simps example_interiors)

subsection \<open>Failure of the extraction\<close>

lemma sample_needs_first_char:
  assumes "carries_sample t msg" and "t = c # cs"
  shows "c \<in> set msg"
proof -
  from assms(1) obtain n where n: "0 < n" and s: "sublist (take n t) msg"
    by (auto simp: carries_sample_def)
  from n assms(2) have "c \<in> set (take n t)"
    by (cases n) simp_all
  with s show ?thesis
    by (meson set_mono_sublist subsetD)
qed

text \<open>
  Claim C4 says that when no tier recovers a value, the error raised carries a sample of
  at most 500 characters of the input. The response below is a fenced block of JSON cut
  short; no tier recovers a value from it, and the error thrown carries the parser's
  message only: not even the first character of the input occurs in it.
\<close>

theorem extraction_failure_counterexample:
  "extract_as_specified example_parse truncated_fence = None
   \<and> snd (parseAIResponse example_parse truncated_fence)
       = Inl ''Could not process AI response: Unexpected end of JSON input''
   \<and> \<not> carries_sample truncated_fence ''Could not process AI response: Unexpected end of JSON input''"
proof (intro conjI)
  have "brace_slice truncated_fence = None"
    by (simp add: brace_slice_def truncated_fence_def fence_def)
  then show "extract_as_specified example_parse truncated_fence = None"
    by (simp add: extract_as_specified_def example_parse_simps example_interiors)
  show "snd (parseAIResponse example_parse truncated_fence)
       = Inl ''Could not process AI response: Unexpected end of JSON input''"
    by (simp add: parseAIResponse_eq deciding_tier_def example_parse_simps example_interiors)
  show "\<not> carries_sample truncated_fence ''Could not process AI response: Unexpected end of JSON input''"
  proof
    assume "carries_sample truncated_fence ''Could not process AI response: Unexpected end of JSON input''"
    moreover have "truncated_fence = CHR 0x60 # tl truncated_fence"
      by (simp add: truncated_fence_def fence_def)
    ultimately have "CHR 0x60 \<in> set ''Could not process AI response: Unexpected end of JSON input''"
      by (rule sample_needs_first_char)
    then show False by simp
  qed
qed

lemma deciding_tier_value:
  "deciding_tier P t = Inr v \<Longrightarrow> extract_as_specified P t \<noteq> None"
  by (auto simp: deciding_tier_def extract_as_specified_def
      split: option.splits list.splits sum.splits)

lemma tier4_carries_sample:
  "carries_sample t (''Could not process AI response: ''
      @ ''Could not extract JSON from AI response: '' @ take 200 t)"
proof -
  have "sublist (take 200 t)
      ((''Could not process AI response: '' @ ''Could not extract JSON from AI response: '')
        @ take 200 t @ [])"
    by (rule sublist_appendI)
  then have "sublist (take 200 t)
      (''Could not process AI response: '' @ ''Could not extract JSON from AI response: '' @ take 200 t)"
    by simp
  moreover have "(0::nat) < 200 \<and> (200::nat) \<le> 500"
    by simp
  ultimately show ?thesis
    unfolding carries_sample_def by blast
qed

lemma plain_prose_tiers:
  "example_parse plain_prose = Inl ''Unexpected token''"
  "fenced_interior plain_prose = None"
  "brace_slice plain_prose = None"
  by (simp_all add: example_parse_def trim_def is_space_def plain_prose_def fenced_interior_def
      brace_slice_def fence_def)

text \<open>
  Claim C4, amended: for every input text from which none of the three tiers recovers a
  value, extraction raises an error and never returns a partial or garbage value. When
  the text has neither a fenced block with a non-empty interior nor a brace slice, the
  error carries a truncated sample of the input, its first 200 characters. When such a
  block or slice was found and did not parse, the error carries the parser's message
  for it, and need not carry any sample of the input. In every case a truncated sample
  of at most 500 characters of the input is written to the error log, with the
  messages of both errors.
\<close>

theorem extraction_failure_reported:
  assumes "extract_as_specified JSON_parse response = None"
  shows "\<exists>initialError repairError.
           JSON_parse response = Inl initialError
         \<and> deciding_tier JSON_parse response = Inl repairError
         \<and> parseAIResponse JSON_parse response
             = ([warning_record initialError, failure_record initialError repairError response],
                Inl (''Could not process AI response: '' @ repairError))
         \<and> (\<forall>c cs. fenced_interior response = Some (c # cs)
               \<longrightarrow> JSON_parse (c # cs) = Inl repairError)
         \<and> (\<forall>slice. (fenced_interior response = None \<or> fenced_interior response = Some [])
                 \<and> brace_slice response = Some slice
               \<longrightarrow> JSON_parse slice = Inl repairError)
         \<and> ((fenced_interior response = None \<or> fenced_interior response = Some [])
               \<and> brace_slice response = None
               \<longrightarrow> repairError = ''Could not extract JSON from AI response: '' @ take 200 response
                 \<and> carries_sample response (''Could not process AI response: '' @ repairError))"
proof -
  from assms obtain initialError where i: "JSON_parse response = Inl initialError"
    by (cases "JSON_parse response") (simp_all add: extract_as_specified_def)
  have "deciding_tier JSON_parse response \<noteq> Inr v" for v
    using deciding_tier_value [of JSON_parse response v] assms by auto
  then obtain repairError where r: "deciding_tier JSON_parse response = Inl repairError"
    by (cases "deciding_tier JSON_parse response") auto
  have block: "\<forall>c cs. fenced_interior response = Some (c # cs)
      \<longrightarrow> JSON_parse (c # cs) = Inl repairError"
    using r by (auto simp: deciding_tier_def)
  have slice: "\<forall>slice. (fenced_interior response = None \<or> fenced_interior response = Some [])
      \<and> brace_slice response = Some slice \<longrightarrow> JSON_parse slice = Inl repairError"
    using r by (auto simp: deciding_tier_def)
  have tier4: "(fenced_interior response = None \<or> fenced_interior response = Some [])
      \<and> brace_slice response = None
      \<longrightarrow> repairError = ''Could not extract JSON from AI response: '' @ take 200 response
        \<and> carries_sample response (''Could not process AI response: '' @ repairError)"
    using r tier4_carries_sample [of response] by (auto simp: deciding_tier_def)
  have p: "parseAIResponse JSON_parse response
      = ([warning_record initialError, failure_record initialError repairError response],
         Inl (''Could not process AI response: '' @ repairError))"
    using i r by (simp add: parseAIResponse_eq)
  from i r p block slice tier4 show ?thesis
    by blast
qed

theorem extraction_failure_reported_witness:
  "parseAIResponse example_parse truncated_fence
     = ([warning_record ''Unexpected token'',
         failure_record ''Unexpected token'' ''Unexpected end of JSON input'' truncated_fence],
        Inl ''Could not process AI response: Unexpected end of JSON input'')
   \<and> snd (parseAIResponse example_parse plain_prose)
       = Inl ''Could not process AI response: Could not extract JSON from AI response: This is not JSON at all, just plain text.''
   \<and> carries_sample plain_prose ''Could not process AI response: Could not extract JSON from AI response: This is not JSON at all, just plain text.''"
proof -
  have "brace_slice truncated_fence = None"
    by (simp add: brace_slice_def truncated_fence_def fence_def)
  then have "extract_as_specified example_parse truncated_fence = None"
    by (simp add: extract_as_specified_def example_parse_simps example_interiors)
  from extraction_failure_reported [OF this]
  have first: "parseAIResponse example_parse truncated_fence
     = ([warning_record ''Unexpected token'',
         failure_record ''Unexpected token'' ''Unexpected end of JSON input'' truncated_fence],
        Inl ''Could not process AI response: Unexpected end of JSON input'')"
    by (auto simp: example_parse_simps deciding_tier_def example_interiors)
  have "extract_as_specified example_parse plain_prose = None"
    by (simp add: extract_as_specified_def plain_prose_tiers)
  from extraction_failure_reported [OF this]
  obtain initialError repairError where
    p: "parseAIResponse example_parse plain_prose
         = ([warning_record initialError, failure_record initialError repairError plain_prose],
            Inl (''Could not process AI response: '' @ repairError))"
    and t: "(fenced_interior plain_prose = None \<or> fenced_interior plain_prose = Some [])
               \<and> brace_slice plain_prose = None
               \<longrightarrow> repairError = ''Could not extract JSON from AI response: '' @ take 200 plain_prose
                 \<and> carries_sample plain_prose (''Could not process AI response: '' @ repairError)"
    by blast
  have c: "(fenced_interior plain_prose = None \<or> fenced_interior plain_prose = Some [])
      \<and> brace_slice plain_prose = None"
    by (simp add: plain_prose_tiers)
  from t c have e: "repairError = ''Could not extract JSON from AI response: '' @ take 200 plain_prose"
    and s: "carries_sample plain_prose (''Could not process AI response: '' @ repairError)"
    by blast+
  have "take 200 plain_prose = ''This is not JSON at all, just plain text.''"
    by (simp add: plain_prose_def)
  with e have e': "''Could not process AI response: '' @ repairError
      = ''Could not process AI response: Could not extract JSON from AI response: This is not JSON at all, just plain text.''"
    by simp
  from p have "snd (parseAIResponse example_parse plain_prose)
      = Inl (''Could not process AI response: '' @ repairError)"
    by simp
  with s first show ?thesis
    unfolding e' by simp
qed

end
